theory Spec2Isabelle
  imports Complex_Main
begin

section \<open>Python and NumPy primitives used by the notebook\<close>

text \<open>
  The notebook \<^verbatim>\<open>dbal_keras\<close> is a sequence of cells.  Its own code is the four query
  strategies, the procedure \<^verbatim>\<open>active_learning_procedure\<close> and the cells that build the
  initial labelled set and the pool.  NumPy, Keras and modAL are libraries: the outcome of
  a random draw, of a stochastic forward pass and of \<^verbatim>\<open>argsort\<close> enter the model as
  arguments, and what the library promises about them is a predicate on that argument.
  An array entry is the real number the floating-point value stands for (no NaN, no
  infinity); the arithmetic on entries is NumPy's rounded arithmetic, of which nothing is
  assumed: see \<open>float_ops\<close>.
\<close>

datatype error = ValueError | IndexError | AxisError | NameError string

text \<open>
  \<^verbatim>\<open>np.random.choice(a, size, replace=False)\<close>: a \<^verbatim>\<open>ValueError\<close> for a negative size or
  a sample larger than the population, otherwise the entries of \<open>a\<close> at the drawn
  positions \<open>pos\<close>.  An integer population \<open>N\<close> is \<^verbatim>\<open>np.arange(N)\<close>.
\<close>

definition np_random_choice :: "'a list \<Rightarrow> int \<Rightarrow> nat list \<Rightarrow> error + 'a list" where
  "np_random_choice a k pos =
     (if k < 0 \<or> int (length a) < k then Inl ValueError
      else Inr (map (\<lambda>p. a ! p) pos))"

text \<open>What a draw without replacement is: \<open>k\<close> pairwise distinct positions of the population.\<close>

definition is_draw :: "nat \<Rightarrow> int \<Rightarrow> nat list \<Rightarrow> bool" where
  "is_draw pop k pos \<longleftrightarrow>
     int (length pos) = k \<and> distinct pos \<and> list_all (\<lambda>p. p < pop) pos"

text \<open>\<^verbatim>\<open>xs[idx]\<close> with an array of non-negative indices: \<^verbatim>\<open>IndexError\<close> when one is out of range.\<close>

definition fancy_index :: "'a list \<Rightarrow> nat list \<Rightarrow> error + 'a list" where
  "fancy_index xs idx =
     (if list_all (\<lambda>i. i < length xs) idx then Inr (map (\<lambda>i. xs ! i) idx)
      else Inl IndexError)"

text \<open>\<^verbatim>\<open>xs[:n]\<close>: a negative \<open>n\<close> counts from the end.\<close>

definition py_slice_to :: "int \<Rightarrow> 'a list \<Rightarrow> 'a list" where
  "py_slice_to n xs =
     (if 0 \<le> n then take (nat n) xs else take (length xs - nat (- n)) xs)"

text \<open>
  \<^verbatim>\<open>np.delete(xs, idx, axis=0)\<close>: the rows whose position is not in \<open>idx\<close>, in their order;
  a position listed twice is removed once; \<^verbatim>\<open>IndexError\<close> when one is out of range.
\<close>

definition np_delete :: "'a list \<Rightarrow> nat list \<Rightarrow> error + 'a list" where
  "np_delete xs idx =
     (if list_all (\<lambda>i. i < length xs) idx
      then Inr (map (\<lambda>i. xs ! i) (filter (\<lambda>i. i \<notin> set idx) [0..<length xs]))
      else Inl IndexError)"

text \<open>
  The result \<open>order\<close> of \<^verbatim>\<open>keys.argsort()\<close>: a permutation of the positions of \<open>keys\<close> that
  lists the keys in ascending order.  NumPy's default sort is not stable, so nothing is
  said about the order of equal keys.
\<close>

definition is_argsort :: "real list \<Rightarrow> nat list \<Rightarrow> bool" where
  "is_argsort keys order \<longleftrightarrow>
     length order = length keys \<and> distinct order \<and>
     list_all (\<lambda>j. j < length keys) order \<and> sorted (map (\<lambda>j. keys ! j) order)"

text \<open>One sort that meets \<open>is_argsort\<close>: the stable one, \<^verbatim>\<open>argsort(kind='stable')\<close>.\<close>

definition stable_argsort :: "real list \<Rightarrow> nat list" where
  "stable_argsort keys = sort_key (\<lambda>j. keys ! j) [0..<length keys]"

subsection \<open>Arrays\<close>

text \<open>
  A tensor of shape \<open>[T, B, C]\<close> is a list of \<open>T\<close> matrices, a matrix of shape \<open>[B, C]\<close>
  a list of \<open>B\<close> rows of length \<open>C\<close>.
\<close>

definition is_matrix :: "nat \<Rightarrow> nat \<Rightarrow> real list list \<Rightarrow> bool" where
  "is_matrix B C A \<longleftrightarrow> length A = B \<and> list_all (\<lambda>row. length row = C) A"

definition is_tensor :: "nat \<Rightarrow> nat \<Rightarrow> nat \<Rightarrow> real list list list \<Rightarrow> bool" where
  "is_tensor T B C M \<longleftrightarrow> length M = T \<and> list_all (is_matrix B C) M"

subsection \<open>Floating-point arithmetic\<close>

text \<open>
  The operations NumPy applies to \<^verbatim>\<open>float32\<close> entries round their results.  They are
  arguments of the model: \<open>f_mean\<close> is the mean \<^verbatim>\<open>np.mean\<close> takes of the values along an
  axis, \<open>f_sum\<close> the sum \<^verbatim>\<open>np.sum\<close> takes of them, \<open>f_add\<close>, \<open>f_sub\<close> and \<open>f_mul\<close> are
  \<^verbatim>\<open>+\<close>, \<^verbatim>\<open>-\<close> and \<^verbatim>\<open>*\<close> on two entries, \<open>f_log\<close> is \<^verbatim>\<open>np.log\<close>.  Unary minus and the
  comparison of two entries are exact in floating point and stay those of the reals.
\<close>

record float_ops =
  f_mean :: "real list \<Rightarrow> real"
  f_sum :: "real list \<Rightarrow> real"
  f_add :: "real \<Rightarrow> real \<Rightarrow> real"
  f_sub :: "real \<Rightarrow> real \<Rightarrow> real"
  f_mul :: "real \<Rightarrow> real \<Rightarrow> real"
  f_log :: "real \<Rightarrow> real"

text \<open>
  \<^verbatim>\<open>np.mean(M, axis=0)\<close>: the first axis is moved behind the others and the mean is taken
  of the values along it.  It is used for a tensor of at least one matrix: the strategies
  treat \<open>T = 0\<close>, where NumPy's array has a single axis, apart.
\<close>

definition np_mean_axis0_3d :: "float_ops \<Rightarrow> real list list list \<Rightarrow> real list list" where
  "np_mean_axis0_3d ops M = map (\<lambda>rows. map (f_mean ops) (transpose rows)) (transpose M)"

definition np_mean_axis0_2d :: "float_ops \<Rightarrow> real list list \<Rightarrow> real list" where
  "np_mean_axis0_2d ops M = map (f_mean ops) (transpose M)"

text \<open>\<^verbatim>\<open>np.sum(P * np.log(P + 1e-10), axis=-1)\<close> for a matrix \<open>P\<close>, one number per row.\<close>

definition sum_p_log_p :: "float_ops \<Rightarrow> real list list \<Rightarrow> real list" where
  "sum_p_log_p ops P =
     map (f_sum ops)
       (map2 (map2 (f_mul ops)) P
          (map (map (f_log ops)) (map (map (\<lambda>p. f_add ops p (1 / 10 ^ 10))) P)))"

section \<open>Query strategies\<close>

text \<open>
  The \<open>T\<close> stochastic forward passes
  \<^verbatim>\<open>[MC_output([X[random_subset], learning_phase])[0] for _ in range(T)]\<close>: the compiled
  backend function \<open>MC_output\<close> gives, for the number of the pass (its dropout masks), the
  batch and the learning-phase flag, one row of class probabilities per batch element.
\<close>

type_synonym 'x network = "nat \<Rightarrow> 'x list \<Rightarrow> bool \<Rightarrow> real list list"

definition mc_samples :: "'x network \<Rightarrow> 'x list \<Rightarrow> nat \<Rightarrow> real list list list" where
  "mc_samples MC_output batch T =
     (let learning_phase = True in map (\<lambda>t. MC_output t batch learning_phase) [0..<T])"

definition net_shape :: "'x network \<Rightarrow> nat \<Rightarrow> bool" where
  "net_shape MC_output C \<longleftrightarrow>
     (\<forall>t batch ph. is_matrix (length batch) C (MC_output t batch ph))"

text \<open>
  \<^verbatim>\<open>expected_p = np.mean(MC_samples, axis=0)\<close>,
  \<^verbatim>\<open>acquisition = - np.sum(expected_p * np.log(expected_p + 1e-10), axis=-1)\<close>.
\<close>

definition max_entropy_acquisition :: "float_ops \<Rightarrow> real list list list \<Rightarrow> real list" where
  "max_entropy_acquisition ops MC_samples =
     (let expected_p = np_mean_axis0_3d ops MC_samples
      in map uminus (sum_p_log_p ops expected_p))"

text \<open>
  The tail shared by the strategies, for the positions \<open>idx\<close> among the candidates:
  \<^verbatim>\<open>query_idx = random_subset[idx]\<close>, \<^verbatim>\<open>return query_idx, X[query_idx]\<close>.
\<close>

definition query_rows ::
  "'x list \<Rightarrow> nat list \<Rightarrow> nat list \<Rightarrow> error + (nat list \<times> 'x list)" where
  "query_rows X random_subset idx =
     (case fancy_index random_subset idx of
        Inl e \<Rightarrow> Inl e
      | Inr query_idx \<Rightarrow>
          (case fancy_index X query_idx of
             Inl e \<Rightarrow> Inl e
           | Inr query_instance \<Rightarrow> Inr (query_idx, query_instance)))"

text \<open>
  \<^verbatim>\<open>idx = (-acquisition).argsort()[:n_instances]\<close> for one score per candidate, and the
  tail.
\<close>

definition top_query ::
  "'x list \<Rightarrow> nat list \<Rightarrow> int \<Rightarrow> real list \<Rightarrow> (real list \<Rightarrow> nat list) \<Rightarrow>
   error + (nat list \<times> 'x list)" where
  "top_query X random_subset n_instances acquisition argsort =
     (let idx = py_slice_to n_instances (argsort (map uminus acquisition))
      in query_rows X random_subset idx)"

text \<open>
  \<^verbatim>\<open>max_entropy(learner, X, n_instances=1, T=100)\<close>.  \<open>draw\<close> is the outcome of the random
  draw, \<open>MC_output\<close> the learner's network, \<open>argsort\<close> the sort that NumPy runs, \<open>ops\<close>
  the arithmetic of the arrays.  With \<open>T = 0\<close> no forward pass is run and
  \<^verbatim>\<open>np.array([])\<close> has one axis, of length 0: its mean along axis 0 is a single NaN, so is
  the score, and the \<^verbatim>\<open>argsort\<close> of a single number is the array of the position 0.
\<close>

definition max_entropy ::
  "float_ops \<Rightarrow> 'x list \<Rightarrow> int \<Rightarrow> nat \<Rightarrow> nat list \<Rightarrow> 'x network \<Rightarrow>
   (real list \<Rightarrow> nat list) \<Rightarrow> error + (nat list \<times> 'x list)" where
  "max_entropy ops X n_instances T draw MC_output argsort =
     (case np_random_choice [0..<length X] 2000 draw of
        Inl e \<Rightarrow> Inl e
      | Inr random_subset \<Rightarrow>
          (case fancy_index X random_subset of
             Inl e \<Rightarrow> Inl e
           | Inr batch \<Rightarrow>
               (let MC_samples = mc_samples MC_output batch T in
                if MC_samples = []
                then query_rows X random_subset (py_slice_to n_instances [0])
                else
                  (let acquisition = max_entropy_acquisition ops MC_samples
                   in top_query X random_subset n_instances acquisition argsort))))"

text \<open>
  \<^verbatim>\<open>bald(learner, X, n_instances, T=100)\<close>:
  \<^verbatim>\<open>expected_entropy = - np.mean(np.sum(MC_samples * np.log(MC_samples + 1e-10), axis=-1), axis=0)\<close>,
  \<^verbatim>\<open>expected_p = np.mean(MC_samples, axis=0)\<close>,
  \<^verbatim>\<open>entropy_expected_p = - np.sum(expected_p * np.log(expected_p + 1e-10), axis=-1)\<close>,
  \<^verbatim>\<open>acquisition = entropy_expected_p - expected_entropy\<close>.
\<close>

definition bald_acquisition :: "float_ops \<Rightarrow> real list list list \<Rightarrow> real list" where
  "bald_acquisition ops MC_samples =
     (let expected_entropy =
            map uminus (np_mean_axis0_2d ops (map (sum_p_log_p ops) MC_samples));
          expected_p = np_mean_axis0_3d ops MC_samples;
          entropy_expected_p = map uminus (sum_p_log_p ops expected_p)
      in map2 (f_sub ops) entropy_expected_p expected_entropy)"

text \<open>
  With \<open>T = 0\<close> the sum along the only axis of \<^verbatim>\<open>np.array([])\<close> is a single number, which
  has no axis 0 to take the mean along: the first line of the computation raises
  (an \<^verbatim>\<open>AxisError\<close>, in older versions of NumPy an \<^verbatim>\<open>IndexError\<close>).
\<close>

definition bald ::
  "float_ops \<Rightarrow> 'x list \<Rightarrow> int \<Rightarrow> nat \<Rightarrow> nat list \<Rightarrow> 'x network \<Rightarrow>
   (real list \<Rightarrow> nat list) \<Rightarrow> error + (nat list \<times> 'x list)" where
  "bald ops X n_instances T draw MC_output argsort =
     (case np_random_choice [0..<length X] 2000 draw of
        Inl e \<Rightarrow> Inl e
      | Inr random_subset \<Rightarrow>
          (case fancy_index X random_subset of
             Inl e \<Rightarrow> Inl e
           | Inr batch \<Rightarrow>
               (let MC_samples = mc_samples MC_output batch T in
                if MC_samples = [] then Inl AxisError
                else
                  (let acquisition = bald_acquisition ops MC_samples
                   in top_query X random_subset n_instances acquisition argsort))))"

text \<open>
  \<^verbatim>\<open>uniform(learner, X, n_instances=1)\<close>:
  \<^verbatim>\<open>query_idx = np.random.choice(range(len(X)), size=n_instances, replace=False)\<close>,
  \<^verbatim>\<open>return query_idx, X[query_idx]\<close>.  The population is the array of \<^verbatim>\<open>range(len(X))\<close>:
  an integer array, but for an empty \<open>X\<close> an empty array of type \<^verbatim>\<open>float64\<close>.  A draw of
  no position out of it is again of type \<^verbatim>\<open>float64\<close>, and \<^verbatim>\<open>X[query_idx]\<close> with an index
  array that is not of integers is an \<^verbatim>\<open>IndexError\<close>.
\<close>

definition uniform :: "'x list \<Rightarrow> int \<Rightarrow> nat list \<Rightarrow> error + (nat list \<times> 'x list)" where
  "uniform X n_instances draw =
     (case np_random_choice [0..<length X] n_instances draw of
        Inl e \<Rightarrow> Inl e
      | Inr query_idx \<Rightarrow>
          if X = [] then Inl IndexError
          else
            (case fancy_index X query_idx of
               Inl e \<Rightarrow> Inl e
             | Inr query_instance \<Rightarrow> Inr (query_idx, query_instance)))"

subsection \<open>The variation-ratio strategy and the names it reads\<close>

text \<open>
  A function body reads a name it does not assign from the module's namespace.  For the
  strategies only one distinction matters: an array with three axes, or any other object.
\<close>

datatype pyobj = Array3 "real list list list" | Opaque

text \<open>
  The names the notebook's cells bind at module level, in the order of the cells: the
  imports, the model builder and classifier, the data, the loop variables of the cell that
  draws the initial indices, the pools, the functions, the two runs and the plotting imports.
  Neither Python's builtins nor the names IPython adds (\<^verbatim>\<open>In\<close>, \<^verbatim>\<open>Out\<close>, \<^verbatim>\<open>_\<close>, ...) include
  \<open>a\<close> or \<open>stats\<close>.
\<close>

definition notebook_names :: "string list" where
  "notebook_names =
     [''keras'', ''np'', ''K'', ''mnist'', ''Sequential'', ''Dense'', ''Dropout'',
      ''Activation'', ''Flatten'', ''Conv2D'', ''MaxPooling2D'', ''l2'', ''KerasClassifier'',
      ''ActiveLearner'', ''tf'', ''create_keras_model'', ''classifier'',
      ''X_train'', ''y_train'', ''X_test'', ''y_test'',
      ''initial_idx'', ''i'', ''idx'', ''X_initial'', ''y_initial'', ''X_pool'', ''y_pool'',
      ''uniform'', ''max_entropy'', ''var_ratio'', ''bald'', ''active_learning_procedure'',
      ''estimator'', ''entropy_perf_hist'', ''uniform_perf_hist'', ''plt'', ''sns'']"

definition notebook_globals :: "string \<Rightarrow> pyobj option" where
  "notebook_globals = map_of (map (\<lambda>name. (name, Opaque)) notebook_names)"

text \<open>\<^verbatim>\<open>np.argmax(row)\<close>: the position of the first maximum of a non-empty row.\<close>

definition argmax_row :: "real list \<Rightarrow> nat" where
  "argmax_row row = hd (filter (\<lambda>c. row ! c = fold max row (hd row)) [0..<length row])"

text \<open>
  \<^verbatim>\<open>stats.mode(preds, axis=0)\<close>: for batch element \<open>i\<close>, how often the most frequent of the
  predictions \<open>preds[t][i]\<close> occurs.
\<close>

definition mode_count :: "nat list list \<Rightarrow> nat \<Rightarrow> nat" where
  "mode_count preds i =
     (let col = map (\<lambda>p. p ! i) preds in fold max (map (count_list col) col) 0)"

text \<open>
  \<^verbatim>\<open>preds = np.argmax(a, axis=2)\<close> for an array \<open>a\<close> of three axes: an \<^verbatim>\<open>AxisError\<close> when
  \<open>a\<close> is empty (an empty array has one axis), a \<^verbatim>\<open>ValueError\<close> for the argmax of an
  empty row.
\<close>

definition np_argmax_axis2 :: "real list list list \<Rightarrow> error + nat list list" where
  "np_argmax_axis2 a =
     (if a = [] then Inl AxisError
      else if list_ex (list_ex (\<lambda>row. row = [])) a then Inl ValueError
      else Inr (map (map argmax_row) a))"

text \<open>
  \<^verbatim>\<open>mode, count = stats.mode(preds, axis=0)\<close>,
  \<^verbatim>\<open>acquisition = (1 - count / preds.shape[1]).reshape((-1,))\<close>: for \<open>preds\<close> of shape
  \<open>[T, B]\<close>, \<^verbatim>\<open>preds.shape[1]\<close> is \<open>B\<close>.
\<close>

definition var_ratio_acquisition :: "nat list list \<Rightarrow> real list" where
  "var_ratio_acquisition preds =
     (let shape1 = length (hd preds)
      in map (\<lambda>i. 1 - real (mode_count preds i) / real shape1) [0..<shape1])"

text \<open>
  \<^verbatim>\<open>var_ratio(learner, X, n_instances=1, T=100)\<close>.  After the forward passes the body reads
  the names \<open>a\<close> and \<open>stats\<close>, which it never assigns: they come from \<open>globals\<close>.  An
  \<open>a\<close> that is not an array of three axes makes \<^verbatim>\<open>np.argmax(a, axis=2)\<close> fail; a bound
  \<open>stats\<close> is taken to be \<^verbatim>\<open>scipy.stats\<close>.
\<close>

definition var_ratio ::
  "(string \<Rightarrow> pyobj option) \<Rightarrow> 'x list \<Rightarrow> int \<Rightarrow> nat \<Rightarrow> nat list \<Rightarrow> 'x network \<Rightarrow>
   (real list \<Rightarrow> nat list) \<Rightarrow> error + (nat list \<times> 'x list)" where
  "var_ratio globals X n_instances T draw MC_output argsort =
     (case np_random_choice [0..<length X] 2000 draw of
        Inl e \<Rightarrow> Inl e
      | Inr random_subset \<Rightarrow>
          (case fancy_index X random_subset of
             Inl e \<Rightarrow> Inl e
           | Inr batch \<Rightarrow>
               (let MC_samples = mc_samples MC_output batch T in
                case globals ''a'' of
                  None \<Rightarrow> Inl (NameError ''a'')
                | Some Opaque \<Rightarrow> Inl AxisError
                | Some (Array3 a) \<Rightarrow>
                    (case np_argmax_axis2 a of
                       Inl e \<Rightarrow> Inl e
                     | Inr preds \<Rightarrow>
                         (case globals ''stats'' of
                            None \<Rightarrow> Inl (NameError ''stats'')
                          | Some stats \<Rightarrow>
                              (let acquisition = var_ratio_acquisition preds
                               in top_query X random_subset n_instances acquisition
                                    argsort))))))"

text \<open>The variation ratio as the specification writes it: \<open>1 - count / T\<close>.\<close>

definition variation_ratio :: "real list list list \<Rightarrow> nat \<Rightarrow> real" where
  "variation_ratio MC i =
     1 - real (mode_count (map (map argmax_row) MC) i) / real (length MC)"

section \<open>The active-learning loop\<close>

text \<open>
  modAL's \<^verbatim>\<open>ActiveLearner\<close> is a library class.  Its four operations are arguments of the
  model; \<open>'l\<close> is everything they can change (the fitted network, the random generators).
  \<open>fit\<close> is the constructor with the initial data, \<open>query\<close> calls the query strategy on
  the pool, \<open>teach\<close> retrains with the new rows (epochs, batch size and verbosity are part
  of it), \<open>score\<close> is the accuracy on the test set.  Each of them can raise: \<open>teach\<close>, for
  one, raises on a query of no rows.  Query indices are natural numbers, as all four
  strategies return them.
\<close>

record ('l, 'x, 'y) active_learner =
  fit :: "'x list \<Rightarrow> 'y list \<Rightarrow> error + 'l"
  score :: "'l \<Rightarrow> 'x list \<Rightarrow> 'y list \<Rightarrow> error + real"
  query :: "'l \<Rightarrow> 'x list \<Rightarrow> int \<Rightarrow> error + ((nat list \<times> 'x list) \<times> 'l)"
  teach :: "'l \<Rightarrow> 'x list \<Rightarrow> 'y list \<Rightarrow> error + 'l"

record ('l, 'x, 'y) al_state =
  learner :: 'l
  X_pool :: "'x list"
  y_pool :: "'y list"
  perf_hist :: "real list"

text \<open>
  The loop body:
  \<^verbatim>\<open>query_idx, query_instance = learner.query(X_pool, n_instances)\<close>,
  \<^verbatim>\<open>learner.teach(X_pool[query_idx], y_pool[query_idx], ...)\<close>,
  \<^verbatim>\<open>X_pool = np.delete(X_pool, query_idx, axis=0)\<close>,
  \<^verbatim>\<open>y_pool = np.delete(y_pool, query_idx, axis=0)\<close>,
  \<^verbatim>\<open>model_accuracy = learner.score(X_test, y_test, verbose=0)\<close>,
  \<^verbatim>\<open>perf_hist.append(model_accuracy)\<close>.  The printed line is not modelled.
\<close>

definition al_step ::
  "('l, 'x, 'y) active_learner \<Rightarrow> 'x list \<Rightarrow> 'y list \<Rightarrow> int \<Rightarrow>
   ('l, 'x, 'y) al_state \<Rightarrow> error + ('l, 'x, 'y) al_state" where
  "al_step lib X_test y_test n_instances s =
     (case query lib (learner s) (X_pool s) n_instances of
        Inl e \<Rightarrow> Inl e
      | Inr ((query_idx, query_instance), l1) \<Rightarrow>
          (case fancy_index (X_pool s) query_idx of
             Inl e \<Rightarrow> Inl e
           | Inr X_new \<Rightarrow>
               (case fancy_index (y_pool s) query_idx of
                  Inl e \<Rightarrow> Inl e
                | Inr y_new \<Rightarrow>
                    (case teach lib l1 X_new y_new of
                       Inl e \<Rightarrow> Inl e
                     | Inr l2 \<Rightarrow>
                         (case np_delete (X_pool s) query_idx of
                            Inl e \<Rightarrow> Inl e
                          | Inr X_pool' \<Rightarrow>
                              (case np_delete (y_pool s) query_idx of
                                 Inl e \<Rightarrow> Inl e
                               | Inr y_pool' \<Rightarrow>
                                   (case score lib l2 X_test y_test of
                                      Inl e \<Rightarrow> Inl e
                                    | Inr model_accuracy \<Rightarrow>
                                        Inr \<lparr>learner = l2, X_pool = X_pool',
                                             y_pool = y_pool',
                                             perf_hist = perf_hist s @ [model_accuracy]\<rparr>)))))))"

text \<open>\<^verbatim>\<open>for index in range(n_queries)\<close>: the body, \<open>k\<close> times, stopping at the first error.\<close>

fun al_loop ::
  "('l, 'x, 'y) active_learner \<Rightarrow> 'x list \<Rightarrow> 'y list \<Rightarrow> int \<Rightarrow> nat \<Rightarrow>
   ('l, 'x, 'y) al_state \<Rightarrow> error + ('l, 'x, 'y) al_state" where
  "al_loop lib X_test y_test n_instances 0 s = Inr s"
| "al_loop lib X_test y_test n_instances (Suc k) s =
     (case al_step lib X_test y_test n_instances s of
        Inl e \<Rightarrow> Inl e
      | Inr s' \<Rightarrow> al_loop lib X_test y_test n_instances k s')"

text \<open>
  Before the loop: \<^verbatim>\<open>learner = ActiveLearner(estimator=estimator, X_training=X_initial,
  y_training=y_initial, ...)\<close>, \<^verbatim>\<open>perf_hist = [learner.score(X_test, y_test, verbose=verbose)]\<close>.
\<close>

definition initial_state ::
  "('l, 'x, 'y) active_learner \<Rightarrow> 'x list \<Rightarrow> 'y list \<Rightarrow> 'x list \<Rightarrow> 'y list \<Rightarrow>
   'x list \<Rightarrow> 'y list \<Rightarrow> error + ('l, 'x, 'y) al_state" where
  "initial_state lib X_test y_test X_pool0 y_pool0 X_initial y_initial =
     (case fit lib X_initial y_initial of
        Inl e \<Rightarrow> Inl e
      | Inr learner0 \<Rightarrow>
          (case score lib learner0 X_test y_test of
             Inl e \<Rightarrow> Inl e
           | Inr accuracy0 \<Rightarrow>
               Inr \<lparr>learner = learner0, X_pool = X_pool0, y_pool = y_pool0,
                    perf_hist = [accuracy0]\<rparr>))"

definition active_learning_procedure ::
  "('l, 'x, 'y) active_learner \<Rightarrow> 'x list \<Rightarrow> 'y list \<Rightarrow> 'x list \<Rightarrow> 'y list \<Rightarrow>
   'x list \<Rightarrow> 'y list \<Rightarrow> int \<Rightarrow> int \<Rightarrow> error + real list" where
  "active_learning_procedure lib X_test y_test X_pool0 y_pool0 X_initial y_initial
       n_queries n_instances =
     (case initial_state lib X_test y_test X_pool0 y_pool0 X_initial y_initial of
        Inl e \<Rightarrow> Inl e
      | Inr s0 \<Rightarrow>
          (case al_loop lib X_test y_test n_instances (nat n_queries) s0 of
             Inl e \<Rightarrow> Inl e
           | Inr s \<Rightarrow> Inr (perf_hist s)))"

text \<open>
  ``In each of the first \<open>k\<close> iterations the query returns normally, with indices inside
  the feature pool and the label pool, and the teach and score calls return normally'':
  stated on the library calls, the next state being the one they lead to.
\<close>

fun calls_succeed ::
  "('l, 'x, 'y) active_learner \<Rightarrow> 'x list \<Rightarrow> 'y list \<Rightarrow> int \<Rightarrow> nat \<Rightarrow>
   ('l, 'x, 'y) al_state \<Rightarrow> bool" where
  "calls_succeed lib X_test y_test n_instances 0 s = True"
| "calls_succeed lib X_test y_test n_instances (Suc k) s =
     (case query lib (learner s) (X_pool s) n_instances of
        Inl e \<Rightarrow> False
      | Inr ((query_idx, query_instance), l1) \<Rightarrow>
          list_all (\<lambda>i. i < length (X_pool s)) query_idx \<and>
          list_all (\<lambda>i. i < length (y_pool s)) query_idx \<and>
          (case teach lib l1 (map (\<lambda>i. X_pool s ! i) query_idx)
                  (map (\<lambda>i. y_pool s ! i) query_idx) of
             Inl e \<Rightarrow> False
           | Inr l2 \<Rightarrow>
               (case score lib l2 X_test y_test of
                  Inl e \<Rightarrow> False
                | Inr accuracy \<Rightarrow>
                    calls_succeed lib X_test y_test n_instances k
                      \<lparr>learner = l2,
                       X_pool = map (\<lambda>i. X_pool s ! i)
                                  (filter (\<lambda>i. i \<notin> set query_idx) [0..<length (X_pool s)]),
                       y_pool = map (\<lambda>i. y_pool s ! i)
                                  (filter (\<lambda>i. i \<notin> set query_idx) [0..<length (y_pool s)]),
                       perf_hist = perf_hist s @ [accuracy]\<rparr>)))"

section \<open>The initial labelled set and the pool\<close>

text \<open>
  \<^verbatim>\<open>keras.utils.to_categorical(y, num_classes)\<close>: one row per label, 1 at the label's
  position and 0 elsewhere; a label that is not below \<open>num_classes\<close> is an \<^verbatim>\<open>IndexError\<close>.
\<close>

definition to_categorical :: "nat list \<Rightarrow> nat \<Rightarrow> error + real list list" where
  "to_categorical y num_classes =
     (if list_all (\<lambda>label. label < num_classes) y
      then Inr (map (\<lambda>label. map (\<lambda>c. if c = label then 1 else 0) [0..<num_classes]) y)
      else Inl IndexError)"

text \<open>\<^verbatim>\<open>np.where(y_train[:,i]==1)[0]\<close>: the rows whose column \<open>i\<close> is 1, ascending.\<close>

definition np_where_column_is_1 :: "real list list \<Rightarrow> nat \<Rightarrow> nat list" where
  "np_where_column_is_1 Y i = filter (\<lambda>j. Y ! j ! i = 1) [0..<length Y]"

text \<open>
  \<^verbatim>\<open>for i in range(10): idx = np.random.choice(np.where(y_train[:,i]==1)[0], size=2, replace=False);
  initial_idx = np.concatenate((initial_idx, idx))\<close>; \<open>draws i\<close> is the outcome of the draw
  for class \<open>i\<close>.
\<close>

fun initial_idx_loop ::
  "real list list \<Rightarrow> (nat \<Rightarrow> nat list) \<Rightarrow> nat list \<Rightarrow> nat list \<Rightarrow> error + nat list" where
  "initial_idx_loop Y draws [] initial_idx = Inr initial_idx"
| "initial_idx_loop Y draws (i # rest) initial_idx =
     (case np_random_choice (np_where_column_is_1 Y i) 2 (draws i) of
        Inl e \<Rightarrow> Inl e
      | Inr idx \<Rightarrow> initial_idx_loop Y draws rest (initial_idx @ idx))"

record 'x split =
  initial_idx :: "nat list"
  X_initial :: "'x list"
  y_initial :: "real list list"
  X_pool0 :: "'x list"
  y_pool0 :: "real list list"

text \<open>
  The cells from preprocessing to the initial pool.  \<open>X_train\<close> and \<open>X_test\<close> hold one
  image per row, \<open>y_labels\<close> and \<open>y_test_labels\<close> one digit per row, as
  \<^verbatim>\<open>mnist.load_data()\<close> gives them.  \<^verbatim>\<open>X_train.reshape(60000, 28, 28, 1)\<close> is a
  \<^verbatim>\<open>ValueError\<close> unless there are 60000 images, \<^verbatim>\<open>X_test.reshape(10000, 28, 28, 1)\<close>
  unless there are 10000.
\<close>

definition initial_split ::
  "'x list \<Rightarrow> 'x list \<Rightarrow> nat list \<Rightarrow> nat list \<Rightarrow> (nat \<Rightarrow> nat list) \<Rightarrow> error + 'x split" where
  "initial_split X_train X_test y_labels y_test_labels draws =
     (if length X_train \<noteq> 60000 then Inl ValueError
      else if length X_test \<noteq> 10000 then Inl ValueError
      else
        case to_categorical y_labels 10 of
          Inl e \<Rightarrow> Inl e
        | Inr y_train \<Rightarrow>
            (case to_categorical y_test_labels 10 of
               Inl e \<Rightarrow> Inl e
             | Inr y_test \<Rightarrow>
                 (case initial_idx_loop y_train draws [0..<10] [] of
                    Inl e \<Rightarrow> Inl e
                  | Inr idxs \<Rightarrow>
                      (case fancy_index X_train idxs of
                         Inl e \<Rightarrow> Inl e
                       | Inr Xi \<Rightarrow>
                           (case fancy_index y_train idxs of
                              Inl e \<Rightarrow> Inl e
                            | Inr yi \<Rightarrow>
                                (case np_delete X_train idxs of
                                   Inl e \<Rightarrow> Inl e
                                 | Inr Xp \<Rightarrow>
                                     (case np_delete y_train idxs of
                                        Inl e \<Rightarrow> Inl e
                                      | Inr yp \<Rightarrow>
                                          Inr \<lparr>initial_idx = idxs, X_initial = Xi,
                                               y_initial = yi, X_pool0 = Xp,
                                               y_pool0 = yp\<rparr>)))))))"

text \<open>The rows of class \<open>c\<close>, by their labels, ascending.\<close>

definition class_rows :: "nat list \<Rightarrow> nat \<Rightarrow> nat list" where
  "class_rows y c = filter (\<lambda>j. y ! j = c) [0..<length y]"

text \<open>The label row of digit \<open>c\<close>: 1 at position \<open>c\<close> of ten, 0 elsewhere.\<close>

definition one_hot :: "nat \<Rightarrow> real list" where
  "one_hot c = map (\<lambda>k. if k = c then 1 else 0) [0..<10]"

text \<open>The two rows drawn for class \<open>c\<close>.\<close>

definition chunk :: "nat list \<Rightarrow> (nat \<Rightarrow> nat list) \<Rightarrow> nat \<Rightarrow> nat list" where
  "chunk y draws c = map (\<lambda>p. class_rows y c ! p) (draws c)"

section \<open>The scores as formulas\<close>

text \<open>
  The entropy of the mean prediction and the mutual information, written entry by entry
  for candidate \<open>i\<close> and \<open>C\<close> classes in the arithmetic \<open>ops\<close>, to compare the vectorised
  code with: \<open>p_bar\<close> is the mean over the samples, \<open>predictive_entropy\<close> is
  \<open>- sum over c of p_bar(i,c) * log(p_bar(i,c) + 1e-10)\<close>, \<open>sample_entropy\<close> the same of one
  sample, \<open>mutual_information\<close> the first minus the mean over the samples of the second
  (the sign of that mean is taken outside it, which is exact).
\<close>

definition p_bar :: "float_ops \<Rightarrow> real list list list \<Rightarrow> nat \<Rightarrow> nat \<Rightarrow> real" where
  "p_bar ops MC i c = f_mean ops (map (\<lambda>t. MC ! t ! i ! c) [0..<length MC])"

definition predictive_entropy :: "float_ops \<Rightarrow> real list list list \<Rightarrow> nat \<Rightarrow> nat \<Rightarrow> real" where
  "predictive_entropy ops MC C i =
     - f_sum ops (map (\<lambda>c. f_mul ops (p_bar ops MC i c)
                          (f_log ops (f_add ops (p_bar ops MC i c) (1 / 10 ^ 10)))) [0..<C])"

definition sample_entropy :: "float_ops \<Rightarrow> real list list \<Rightarrow> nat \<Rightarrow> nat \<Rightarrow> real" where
  "sample_entropy ops A C i =
     - f_sum ops (map (\<lambda>c. f_mul ops (A ! i ! c)
                          (f_log ops (f_add ops (A ! i ! c) (1 / 10 ^ 10)))) [0..<C])"

definition mutual_information :: "float_ops \<Rightarrow> real list list list \<Rightarrow> nat \<Rightarrow> nat \<Rightarrow> real" where
  "mutual_information ops MC C i =
     f_sub ops (predictive_entropy ops MC C i)
       (- f_mean ops (map (\<lambda>t. - sample_entropy ops (MC ! t) C i) [0..<length MC]))"

text \<open>The arithmetic without rounding, under which the formulas are the textbook ones.\<close>

definition exact_ops :: float_ops where
  "exact_ops =
     \<lparr>f_mean = (\<lambda>xs. sum_list xs / real (length xs)), f_sum = sum_list,
      f_add = (+), f_sub = (-), f_mul = (*), f_log = ln\<rparr>"

section \<open>Helpers for concrete inputs\<close>

text \<open>A network that answers every input with the same row of class probabilities.\<close>

definition constant_network :: "real list \<Rightarrow> 'x network" where
  "constant_network row t batch ph = map (\<lambda>x. row) batch"

text \<open>
  A learner for concrete runs: its state is the number of rows it was trained on, which is
  also its score; it cannot be taught no rows; its query strategy is \<open>uniform\<close>, the draw
  being the first positions.
\<close>

definition counting_learner :: "(nat, nat, nat) active_learner" where
  "counting_learner =
     \<lparr>fit = (\<lambda>X y. Inr (length X)),
      score = (\<lambda>l X y. Inr (real l)),
      query = (\<lambda>l X n. map_sum id (\<lambda>q. (q, l)) (uniform X n [0..<nat n])),
      teach = (\<lambda>l X y. if X = [] then Inl ValueError else Inr (l + length X))\<rparr>"

section \<open>Array lemmas\<close>

lemma is_matrixD:
  assumes "is_matrix B C A"
  shows "length A = B" and "i < B \<Longrightarrow> length (A ! i) = C"
  using assms by (auto simp: is_matrix_def list_all_length)

lemma map_upt_nth: "map (\<lambda>j. f (xs ! j)) [0..<length xs] = map f xs"
proof -
  have "map (\<lambda>j. f (xs ! j)) [0..<length xs] = map f (map (\<lambda>j. xs ! j) [0..<length xs])"
    by simp
  then show ?thesis
    by (simp only: map_nth)
qed

lemma zip_map_same: "zip (map f ks) (map g ks) = map (\<lambda>k. (f k, g k)) ks"
  by (induction ks) simp_all

lemma map2_same: "map2 f xs (map g xs) = map (\<lambda>x. f x (g x)) xs"
  by (induction xs) simp_all

lemma transpose_rows:
  assumes "xss \<noteq> []" and "list_all (\<lambda>xs. length xs = n) xss"
  shows "length (transpose xss) = n"
    and "i < n \<Longrightarrow> transpose xss ! i = map (\<lambda>xs. xs ! i) xss"
proof -
  have rect: "transpose xss = map (\<lambda>i. map (\<lambda>j. xss ! j ! i) [0..<length xss]) [0..<n]"
    using assms by (intro transpose_rectangle) (simp_all add: list_all_length)
  show "length (transpose xss) = n"
    by (simp add: rect)
  assume "i < n"
  then have "transpose xss ! i = map (\<lambda>j. xss ! j ! i) [0..<length xss]"
    by (simp add: rect)
  also have "\<dots> = map (\<lambda>xs. xs ! i) xss"
    by (rule map_upt_nth)
  finally show "transpose xss ! i = map (\<lambda>xs. xs ! i) xss" .
qed

lemma np_mean_axis0_3d_nth:
  assumes "is_tensor T B C M" and "0 < T"
  shows "is_matrix B C (np_mean_axis0_3d ops M)"
    and "i < B \<Longrightarrow> c < C \<Longrightarrow> np_mean_axis0_3d ops M ! i ! c = p_bar ops M i c"
proof -
  have ne: "M \<noteq> []" and len: "length M = T"
    using assms by (auto simp: is_tensor_def)
  have mats: "\<And>A. A \<in> set M \<Longrightarrow> is_matrix B C A"
    using assms(1) by (simp add: is_tensor_def list_all_iff)
  have outer: "list_all (\<lambda>A. length A = B) M"
    using mats is_matrixD(1) by (auto simp: list_all_iff)
  note tr = transpose_rows [OF ne outer]
  have inner: "list_all (\<lambda>r. length r = C) (map (\<lambda>A. A ! i) M)" if "i < B" for i
  proof -
    have "length (A ! i) = C" if "A \<in> set M" for A
      using is_matrixD(2) [OF mats [OF that] \<open>i < B\<close>] .
    then show ?thesis
      by (simp add: list_all_iff)
  qed
  have ne': "map (\<lambda>A. A ! i) M \<noteq> []" for i
    using ne by simp
  have row: "length (transpose (transpose M ! i)) = C" if "i < B" for i
    using transpose_rows(1) [OF ne' inner [OF that]] tr(2) [OF that] by simp
  show "is_matrix B C (np_mean_axis0_3d ops M)"
    using tr(1) row by (simp add: np_mean_axis0_3d_def is_matrix_def list_all_length)
  assume i: "i < B" and c: "c < C"
  have "transpose (transpose M ! i) ! c = map (\<lambda>r. r ! c) (map (\<lambda>A. A ! i) M)"
    using transpose_rows(2) [OF ne' inner [OF i] c] tr(2) [OF i] by simp
  also have "\<dots> = map (\<lambda>t. M ! t ! i ! c) [0..<length M]"
    using map_upt_nth [of "\<lambda>A. A ! i ! c" M] by simp
  finally show "np_mean_axis0_3d ops M ! i ! c = p_bar ops M i c"
    using i c tr(1) row [OF i] by (simp add: np_mean_axis0_3d_def p_bar_def)
qed

lemma np_mean_axis0_2d_nth:
  assumes "list_all (\<lambda>v. length v = B) M" and "M \<noteq> []"
  shows "length (np_mean_axis0_2d ops M) = B"
    and "i < B \<Longrightarrow> np_mean_axis0_2d ops M ! i = f_mean ops (map (\<lambda>v. v ! i) M)"
  using transpose_rows [OF assms(2,1)] by (simp_all add: np_mean_axis0_2d_def)

lemma sum_p_log_p_length:
  assumes "is_matrix B C P"
  shows "length (sum_p_log_p ops P) = B"
  using assms by (simp add: sum_p_log_p_def is_matrixD)

lemma sum_p_log_p_nth:
  assumes "is_matrix B C P" and "i < B"
  shows "sum_p_log_p ops P ! i
           = f_sum ops (map (\<lambda>c. f_mul ops (P ! i ! c)
                                 (f_log ops (f_add ops (P ! i ! c) (1 / 10 ^ 10)))) [0..<C])"
proof -
  have len: "length P = B" and row: "length (P ! i) = C"
    using assms by (simp_all add: is_matrixD)
  let ?g = "\<lambda>p. f_mul ops p (f_log ops (f_add ops p (1 / 10 ^ 10)))"
  have "sum_p_log_p ops P ! i
          = f_sum ops (map2 (f_mul ops) (P ! i)
              (map (f_log ops) (map (\<lambda>p. f_add ops p (1 / 10 ^ 10)) (P ! i))))"
    using assms(2) by (simp add: sum_p_log_p_def len)
  also have "map2 (f_mul ops) (P ! i)
              (map (f_log ops) (map (\<lambda>p. f_add ops p (1 / 10 ^ 10)) (P ! i)))
             = map ?g (P ! i)"
    using map2_same [of "f_mul ops" "P ! i" "\<lambda>p. f_log ops (f_add ops p (1 / 10 ^ 10))"]
    by (simp add: comp_def)
  also have "map ?g (P ! i) = map (\<lambda>c. ?g (P ! i ! c)) [0..<C]"
    using map_upt_nth [of ?g "P ! i"] row by simp
  finally show ?thesis .
qed

lemma max_entropy_acquisition_nth:
  assumes "is_tensor T B C M" and "0 < T"
  shows "length (max_entropy_acquisition ops M) = B"
    and "i < B \<Longrightarrow> max_entropy_acquisition ops M ! i = predictive_entropy ops M C i"
proof -
  note P = np_mean_axis0_3d_nth [where ops = ops, OF assms]
  show "length (max_entropy_acquisition ops M) = B"
    using sum_p_log_p_length [OF P(1)] by (simp add: max_entropy_acquisition_def)
  assume i: "i < B"
  have "sum_p_log_p ops (np_mean_axis0_3d ops M) ! i
          = f_sum ops (map (\<lambda>c. f_mul ops (p_bar ops M i c)
                                (f_log ops (f_add ops (p_bar ops M i c) (1 / 10 ^ 10)))) [0..<C])"
  proof -
    have "map (\<lambda>c. f_mul ops (np_mean_axis0_3d ops M ! i ! c)
                     (f_log ops (f_add ops (np_mean_axis0_3d ops M ! i ! c) (1 / 10 ^ 10))))
            [0..<C]
          = map (\<lambda>c. f_mul ops (p_bar ops M i c)
                     (f_log ops (f_add ops (p_bar ops M i c) (1 / 10 ^ 10)))) [0..<C]"
      using P(2) [OF i] by (intro map_cong) simp_all
    then show ?thesis
      by (simp only: sum_p_log_p_nth [where ops = ops, OF P(1) i])
  qed
  then show "max_entropy_acquisition ops M ! i = predictive_entropy ops M C i"
    using i sum_p_log_p_length [OF P(1)]
    by (simp add: max_entropy_acquisition_def predictive_entropy_def)
qed

lemma bald_acquisition_nth:
  assumes "is_tensor T B C M" and "0 < T"
  shows "length (bald_acquisition ops M) = B"
    and "i < B \<Longrightarrow> bald_acquisition ops M ! i = mutual_information ops M C i"
proof -
  note P = np_mean_axis0_3d_nth [where ops = ops, OF assms]
  have lenM: "length M = T" and mats: "\<And>t. t < T \<Longrightarrow> is_matrix B C (M ! t)"
    using assms(1) by (simp_all add: is_tensor_def list_all_length)
  have rows: "list_all (\<lambda>v. length v = B) (map (sum_p_log_p ops) M)"
    using sum_p_log_p_length [OF mats] lenM by (simp add: list_all_length)
  have ne: "map (sum_p_log_p ops) M \<noteq> []"
    using assms(2) lenM by auto
  note mean = np_mean_axis0_2d_nth [where ops = ops, OF rows ne]
  show "length (bald_acquisition ops M) = B"
    using mean(1) sum_p_log_p_length [OF P(1)] by (simp add: bald_acquisition_def)
  assume i: "i < B"
  have first: "(map uminus (sum_p_log_p ops (np_mean_axis0_3d ops M))) ! i
                 = predictive_entropy ops M C i"
    using max_entropy_acquisition_nth(2) [where ops = ops, OF assms i]
    by (simp add: max_entropy_acquisition_def)
  have "map (\<lambda>v. v ! i) (map (sum_p_log_p ops) M)
          = map (\<lambda>t. sum_p_log_p ops (M ! t) ! i) [0..<length M]"
    using map_upt_nth [of "\<lambda>A. sum_p_log_p ops A ! i" M] by simp
  also have "\<dots> = map (\<lambda>t. - sample_entropy ops (M ! t) C i) [0..<length M]"
    using sum_p_log_p_nth [OF mats i] lenM by (simp add: sample_entropy_def)
  finally have second: "np_mean_axis0_2d ops (map (sum_p_log_p ops) M) ! i
          = f_mean ops (map (\<lambda>t. - sample_entropy ops (M ! t) C i) [0..<length M])"
    using mean(2) [OF i] by simp
  show "bald_acquisition ops M ! i = mutual_information ops M C i"
    using first second i mean(1) sum_p_log_p_length [OF P(1)]
    by (simp add: bald_acquisition_def mutual_information_def)
qed

text \<open>Without rounding the formulas are the sums of the textbook.\<close>

lemma p_bar_exact:
  "p_bar exact_ops MC i c = (\<Sum>t<length MC. MC ! t ! i ! c) / real (length MC)"
  by (simp add: p_bar_def exact_ops_def sum_list_sum_nth atLeast0LessThan)

lemma predictive_entropy_exact:
  "predictive_entropy exact_ops MC C i
     = - (\<Sum>c<C. p_bar exact_ops MC i c * ln (p_bar exact_ops MC i c + 1 / 10 ^ 10))"
  by (simp add: predictive_entropy_def exact_ops_def sum_list_sum_nth atLeast0LessThan)

lemma sample_entropy_exact:
  "sample_entropy exact_ops A C i = - (\<Sum>c<C. A ! i ! c * ln (A ! i ! c + 1 / 10 ^ 10))"
  by (simp add: sample_entropy_def exact_ops_def sum_list_sum_nth atLeast0LessThan)

lemma mutual_information_exact:
  "mutual_information exact_ops MC C i
     = predictive_entropy exact_ops MC C i
       - (\<Sum>t<length MC. sample_entropy exact_ops (MC ! t) C i) / real (length MC)"
  by (simp add: mutual_information_def exact_ops_def sum_list_sum_nth atLeast0LessThan
      sum_negf)

section \<open>Lemmas on draws, sorting and the selected query\<close>

lemma is_argsort_set:
  assumes "is_argsort keys order"
  shows "set order = {..<length keys}"
proof -
  have sub: "set order \<subseteq> {..<length keys}"
    using assms by (auto simp: is_argsort_def list_all_iff)
  have "card (set order) = length keys"
    using assms by (simp add: is_argsort_def distinct_card)
  then show ?thesis
    using sub by (simp add: card_subset_eq)
qed

lemma py_slice_to_take: "\<exists>m. py_slice_to n xs = take m xs"
  by (auto simp: py_slice_to_def)

lemma py_slice_to_length:
  "0 \<le> n \<Longrightarrow> length (py_slice_to n xs) = min (nat n) (length xs)"
  by (simp add: py_slice_to_def)

lemma sorted_take_le_rest:
  assumes "sorted (map f xs)" and "j \<in> set (take m xs)" and "k \<in> set xs" and "k \<notin> set (take m xs)"
  shows "f j \<le> f k"
proof -
  have "k \<in> set (drop m xs)"
    using assms(3,4) by (metis Un_iff append_take_drop_id set_append)
  moreover have "sorted (map f (take m xs) @ map f (drop m xs))"
    using assms(1) by (metis append_take_drop_id map_append)
  ultimately show ?thesis
    using assms(2) by (auto simp: sorted_append)
qed

lemma top_query_ok:
  fixes X :: "'x list" and n :: int
  assumes rs: "length rs = B" "distinct rs" "list_all (\<lambda>p. p < length X) rs"
    and acq: "length acq = B"
    and srt: "is_argsort (map uminus acq) (argsort (map uminus acq))"
  defines "idx \<equiv> py_slice_to n (argsort (map uminus acq))"
  shows "top_query X rs n acq argsort
           = Inr (map (\<lambda>j. rs ! j) idx, map (\<lambda>i. X ! i) (map (\<lambda>j. rs ! j) idx))"
    and "distinct (map (\<lambda>j. rs ! j) idx)"
    and "set (map (\<lambda>j. rs ! j) idx) \<subseteq> set rs"
    and "list_all (\<lambda>i. i < length X) (map (\<lambda>j. rs ! j) idx)"
    and "\<forall>j\<in>set idx. \<forall>k<B. k \<notin> set idx \<longrightarrow> acq ! k \<le> acq ! j"
    and "length idx = (if 0 \<le> n then min (nat n) B else B - nat (- n))"
proof -
  let ?order = "argsort (map uminus acq)"
  obtain m where m: "idx = take m ?order"
    unfolding idx_def using py_slice_to_take by blast
  have set_order: "set ?order = {..<B}"
    using is_argsort_set [OF srt] acq by simp
  have dist_order: "distinct ?order" and len_order: "length ?order = B"
    using srt acq by (simp_all add: is_argsort_def)
  have idx_sub: "set idx \<subseteq> {..<B}"
    unfolding m using set_order set_take_subset by fastforce
  have dist_idx: "distinct idx"
    unfolding m using dist_order by simp
  have in_rs: "list_all (\<lambda>i. i < length rs) idx"
    using idx_sub rs(1) by (auto simp: list_all_iff)
  show sub: "set (map (\<lambda>j. rs ! j) idx) \<subseteq> set rs"
    using idx_sub rs(1) by auto
  show in_X: "list_all (\<lambda>i. i < length X) (map (\<lambda>j. rs ! j) idx)"
    using sub rs(3) by (auto simp: list_all_iff)
  show "top_query X rs n acq argsort
           = Inr (map (\<lambda>j. rs ! j) idx, map (\<lambda>i. X ! i) (map (\<lambda>j. rs ! j) idx))"
    using in_rs in_X by (simp add: top_query_def query_rows_def fancy_index_def idx_def [symmetric] Let_def)
  show "distinct (map (\<lambda>j. rs ! j) idx)"
  proof -
    have "inj_on (\<lambda>j. rs ! j) (set idx)"
    proof (rule inj_onI)
      fix x y assume "x \<in> set idx" "y \<in> set idx" "rs ! x = rs ! y"
      then show "x = y"
        using idx_sub rs(1,2) nth_eq_iff_index_eq [of rs x y] by auto
    qed
    then show ?thesis
      using dist_idx by (simp add: distinct_map)
  qed
  show "\<forall>j\<in>set idx. \<forall>k<B. k \<notin> set idx \<longrightarrow> acq ! k \<le> acq ! j"
  proof (intro ballI allI impI)
    fix j k assume j: "j \<in> set idx" and k: "k < B" and nk: "k \<notin> set idx"
    have srt': "sorted (map (\<lambda>j. map uminus acq ! j) ?order)"
      using srt by (simp add: is_argsort_def)
    have "k \<in> set ?order" using k set_order by simp
    then have "map uminus acq ! j \<le> map uminus acq ! k"
      using sorted_take_le_rest [OF srt', of j m k] j nk by (simp add: m)
    moreover have "j < B" using j idx_sub by auto
    ultimately show "acq ! k \<le> acq ! j"
      using k acq by simp
  qed
  show "length idx = (if 0 \<le> n then min (nat n) B else B - nat (- n))"
    by (auto simp: idx_def py_slice_to_def len_order)
qed

lemma is_draw_le:
  assumes "is_draw N k d"
  shows "0 \<le> k" and "k \<le> int N"
proof -
  have "set d \<subseteq> {..<N}"
    using assms by (auto simp: is_draw_def list_all_iff)
  then have "card (set d) \<le> card {..<N}"
    by (intro card_mono) simp_all
  then show "k \<le> int N"
    using assms by (simp add: is_draw_def distinct_card)
  show "0 \<le> k" using assms by (auto simp: is_draw_def)
qed

lemma np_random_choice_arange:
  assumes "is_draw N k d"
  shows "np_random_choice [0..<N] k d = Inr d"
proof -
  have "map (\<lambda>p. [0..<N] ! p) d = d"
    using assms by (intro map_idI) (simp add: is_draw_def list_all_iff)
  then show ?thesis
    using is_draw_le [OF assms] by (simp add: np_random_choice_def)
qed

lemma mc_samples_tensor:
  assumes "net_shape MC_output C"
  shows "is_tensor T (length batch) C (mc_samples MC_output batch T)"
  using assms by (simp add: is_tensor_def mc_samples_def net_shape_def list_all_iff)

lemma stable_argsort_is_argsort: "is_argsort keys (stable_argsort keys)"
  by (simp add: is_argsort_def stable_argsort_def list_all_iff)

lemma is_draw_upt: "n \<le> N \<Longrightarrow> is_draw N (int n) [0..<n]"
  by (simp add: is_draw_def list_all_iff)

lemma constant_network_shape: "net_shape (constant_network row) (length row)"
  by (simp add: net_shape_def constant_network_def is_matrix_def list_all_iff)

lemma notebook_binds_no_a: "notebook_globals ''a'' = None"
  by (simp add: notebook_globals_def notebook_names_def)

lemma notebook_binds_no_stats: "notebook_globals ''stats'' = None"
  by (simp add: notebook_globals_def notebook_names_def)

text \<open>
  Were \<open>a\<close> and \<open>stats\<close> bound, the scores would still not be variation ratios: the count
  is divided by the batch size \<^verbatim>\<open>preds.shape[1]\<close>, not by the number of samples.  Two
  samples of one point that agree give the score \<open>1 - 2 / 1\<close>.
\<close>

lemma var_ratio_acquisition_divides_by_batch:
  "map_sum id var_ratio_acquisition (np_argmax_axis2 [[[1, 0]], [[1, 0]]]) = Inr [- 1]"
  "variation_ratio [[[1, 0]], [[1, 0]]] 0 = 0"
  by (simp_all add: var_ratio_acquisition_def np_argmax_axis2_def variation_ratio_def
      mode_count_def argmax_row_def)

lemma top_query_result:
  assumes "top_query X rs n acq argsort = Inr (qi, qx)"
  shows "set qi \<subseteq> set rs" and "qx = map (\<lambda>i. X ! i) qi" and "list_all (\<lambda>i. i < length X) qi"
  using assms
  by (auto simp: top_query_def query_rows_def fancy_index_def Let_def list_all_iff split: if_splits)

lemma np_random_choice_too_few:
  "int (length a) < k \<Longrightarrow> np_random_choice a k pos = Inl ValueError"
  by (simp add: np_random_choice_def)

lemma var_ratio_result:
  assumes "var_ratio g X n T draw MC_output argsort = Inr (qi, qx)"
  shows "set qi \<subseteq> set (map (\<lambda>p. [0..<length X] ! p) draw)"
  using assms top_query_result(1) [of X "map (\<lambda>p. [0..<length X] ! p) draw" n _ argsort qi qx]
  by (auto simp: var_ratio_def np_random_choice_def Let_def
      split: if_splits sum.splits option.splits pyobj.splits)

lemma witness_draw: "is_draw (length [0..<2500::nat]) 2000 [0..<2000]"
  using is_draw_upt [of 2000 2500] by simp

lemma witness_net: "net_shape (constant_network [1 / 2, 1 / 2] :: nat network) 2"
  using constant_network_shape [of "[1 / 2, 1 / 2]"] by (simp add: numeral_2_eq_2)

lemma mc_samples_Nil: "mc_samples MC_output batch T = [] \<longleftrightarrow> T = 0"
  by (simp add: mc_samples_def)

lemma max_entropy_run:
  assumes "is_draw (length X) 2000 draw" and "0 < T"
  shows "max_entropy ops X n_instances T draw MC_output argsort
           = top_query X draw n_instances
               (max_entropy_acquisition ops (mc_samples MC_output (map (\<lambda>i. X ! i) draw) T))
               argsort"
  using assms
  by (simp add: max_entropy_def np_random_choice_arange [OF assms(1)] fancy_index_def
      is_draw_def Let_def mc_samples_Nil)

lemma max_entropy_no_samples:
  assumes "is_draw (length X) 2000 draw"
  shows "max_entropy ops X n_instances 0 draw MC_output argsort
           = query_rows X draw (py_slice_to n_instances [0])"
  using assms
  by (simp add: max_entropy_def np_random_choice_arange [OF assms] fancy_index_def
      is_draw_def Let_def mc_samples_Nil)

lemma bald_run:
  assumes "is_draw (length X) 2000 draw" and "0 < T"
  shows "bald ops X n_instances T draw MC_output argsort
           = top_query X draw n_instances
               (bald_acquisition ops (mc_samples MC_output (map (\<lambda>i. X ! i) draw) T))
               argsort"
  using assms
  by (simp add: bald_def np_random_choice_arange [OF assms(1)] fancy_index_def
      is_draw_def Let_def mc_samples_Nil)

lemma bald_no_samples:
  assumes "is_draw (length X) 2000 draw"
  shows "bald ops X n_instances 0 draw MC_output argsort = Inl AxisError"
  using assms
  by (simp add: bald_def np_random_choice_arange [OF assms] fancy_index_def
      is_draw_def Let_def mc_samples_Nil)

lemma query_rows_result:
  assumes "query_rows X rs idx = Inr (qi, qx)"
  shows "set qi \<subseteq> set rs" and "qx = map (\<lambda>i. X ! i) qi" and "list_all (\<lambda>i. i < length X) qi"
    and "qi = map (\<lambda>j. rs ! j) idx" and "list_all (\<lambda>i. i < length rs) idx"
  using assms
  by (auto simp: query_rows_def fancy_index_def list_all_iff split: if_splits)

lemma query_rows_distinct:
  assumes "query_rows X rs idx = Inr (qi, qx)" and "distinct rs" and "distinct idx"
  shows "distinct qi"
proof -
  note q = query_rows_result(4,5) [OF assms(1)]
  have "inj_on (\<lambda>j. rs ! j) (set idx)"
  proof (rule inj_onI)
    fix x y assume "x \<in> set idx" "y \<in> set idx" "rs ! x = rs ! y"
    then show "x = y"
      using q(2) assms(2) nth_eq_iff_index_eq [of rs x y] by (auto simp: list_all_iff)
  qed
  then show ?thesis
    using assms(3) by (simp add: q(1) distinct_map)
qed

lemma py_slice_to_distinct: "distinct xs \<Longrightarrow> distinct (py_slice_to n xs)"
  by (simp add: py_slice_to_def)

lemma top_query_distinct:
  assumes "top_query X rs n acq argsort = Inr (qi, qx)"
    and "distinct rs" and "distinct (argsort (map uminus acq))"
  shows "distinct qi"
proof -
  let ?idx = "py_slice_to n (argsort (map uminus acq))"
  have in_rs: "list_all (\<lambda>i. i < length rs) ?idx" and qi: "qi = map (\<lambda>j. rs ! j) ?idx"
    using assms(1)
    by (auto simp: top_query_def query_rows_def fancy_index_def Let_def split: if_splits)
  obtain m where m: "?idx = take m (argsort (map uminus acq))"
    using py_slice_to_take by blast
  have "distinct ?idx"
    unfolding m using assms(3) by simp
  moreover have "inj_on (\<lambda>j. rs ! j) (set ?idx)"
  proof (rule inj_onI)
    fix x y assume "x \<in> set ?idx" "y \<in> set ?idx" "rs ! x = rs ! y"
    then show "x = y"
      using in_rs assms(2) nth_eq_iff_index_eq [of rs x y] by (auto simp: list_all_iff)
  qed
  ultimately show ?thesis
    by (simp add: qi distinct_map)
qed

lemma top_query_on_draw:
  fixes X :: "'x list" and n :: int
  assumes draw: "is_draw (length X) 2000 draw"
    and len: "length acq = 2000"
    and srt: "is_argsort (map uminus acq) (argsort (map uminus acq))"
  defines "idx \<equiv> py_slice_to n (argsort (map uminus acq))"
  shows "top_query X draw n acq argsort
           = Inr (map (\<lambda>j. draw ! j) idx, map (\<lambda>i. X ! i) (map (\<lambda>j. draw ! j) idx))"
    and "distinct (map (\<lambda>j. draw ! j) idx)"
    and "\<forall>j\<in>set idx. \<forall>k<2000. k \<notin> set idx \<longrightarrow> acq ! k \<le> acq ! j"
    and "length idx = (if 0 \<le> n then min (nat n) 2000 else 2000 - nat (- n))"
    and "set idx \<subseteq> {..<2000}"
proof -
  have d: "length draw = 2000" "distinct draw" "list_all (\<lambda>p. p < length X) draw"
    using draw by (simp_all add: is_draw_def)
  note tq = top_query_ok [where argsort = argsort and n = n, OF d len srt, folded idx_def]
  show "top_query X draw n acq argsort
           = Inr (map (\<lambda>j. draw ! j) idx, map (\<lambda>i. X ! i) (map (\<lambda>j. draw ! j) idx))"
    using tq(1) .
  show "distinct (map (\<lambda>j. draw ! j) idx)"
    using tq(2) .
  show "\<forall>j\<in>set idx. \<forall>k<2000. k \<notin> set idx \<longrightarrow> acq ! k \<le> acq ! j"
    using tq(5) .
  show "length idx = (if 0 \<le> n then min (nat n) 2000 else 2000 - nat (- n))"
    using tq(6) .
  obtain m where "idx = take m (argsort (map uminus acq))"
    unfolding idx_def using py_slice_to_take by blast
  then show "set idx \<subseteq> {..<2000}"
    using is_argsort_set [OF srt] len set_take_subset [of m "argsort (map uminus acq)"]
    by auto
qed

lemma mc_samples_draw_tensor:
  assumes "is_draw (length X) 2000 draw" and "net_shape MC_output C"
  shows "is_tensor T 2000 C (mc_samples MC_output (map (\<lambda>i. X ! i) draw) T)"
  using mc_samples_tensor [OF assms(2), of T "map (\<lambda>i. X ! i) draw"] assms(1)
  by (simp add: is_draw_def)

lemma uniform_query:
  assumes "is_draw (length X) n udraw" and "X \<noteq> []"
  shows "uniform X n udraw = Inr (udraw, map (\<lambda>i. X ! i) udraw)"
  using assms
  by (simp add: uniform_def np_random_choice_arange [OF assms(1)] fancy_index_def is_draw_def)

lemma uniform_result:
  assumes "is_draw (length X) n udraw" and "uniform X n udraw = Inr (qi, qx)"
  shows "qi = udraw" and "qx = map (\<lambda>i. X ! i) qi" and "X \<noteq> []"
  using assms
  by (auto simp: uniform_def np_random_choice_arange [OF assms(1)] fancy_index_def
      split: if_splits)

lemma uniform_empty_pool: "uniform [] 0 [] = Inl IndexError"
  by (simp add: uniform_def np_random_choice_def)

lemma max_entropy_result:
  assumes d: "is_draw (length X) 2000 draw"
    and r: "max_entropy ops X n T draw MC_output argsort = Inr (qi, qx)"
  shows "set qi \<subseteq> set draw" and "qx = map (\<lambda>i. X ! i) qi"
    and "list_all (\<lambda>i. i < length X) qi"
    and "distinct (argsort (map uminus (max_entropy_acquisition ops
           (mc_samples MC_output (map (\<lambda>i. X ! i) draw) T)))) \<Longrightarrow> distinct qi"
proof -
  let ?acq = "max_entropy_acquisition ops (mc_samples MC_output (map (\<lambda>i. X ! i) draw) T)"
  have dd: "distinct draw"
    using d by (simp add: is_draw_def)
  have "\<exists>idx. query_rows X draw idx = Inr (qi, qx) \<and>
          (distinct (argsort (map uminus ?acq)) \<longrightarrow> distinct idx)"
  proof (cases "T = 0")
    case True
    have "query_rows X draw (py_slice_to n [0]) = Inr (qi, qx)"
      using r max_entropy_no_samples [OF d] True by simp
    moreover have "distinct (py_slice_to n [0::nat])"
      by (rule py_slice_to_distinct) simp
    ultimately show ?thesis by blast
  next
    case False
    then have "query_rows X draw (py_slice_to n (argsort (map uminus ?acq))) = Inr (qi, qx)"
      using r max_entropy_run [OF d, of T] by (simp add: top_query_def)
    then show ?thesis
      using py_slice_to_distinct by blast
  qed
  then obtain idx where q: "query_rows X draw idx = Inr (qi, qx)"
    and di: "distinct (argsort (map uminus ?acq)) \<longrightarrow> distinct idx"
    by blast
  show "set qi \<subseteq> set draw" "qx = map (\<lambda>i. X ! i) qi" "list_all (\<lambda>i. i < length X) qi"
    using query_rows_result(1,2,3) [OF q] .
  show "distinct qi" if "distinct (argsort (map uminus ?acq))"
    using query_rows_distinct [OF q dd] di that by simp
qed

lemma bald_result:
  assumes d: "is_draw (length X) 2000 draw"
    and r: "bald ops X n T draw MC_output argsort = Inr (qi, qx)"
  shows "set qi \<subseteq> set draw" and "qx = map (\<lambda>i. X ! i) qi"
    and "list_all (\<lambda>i. i < length X) qi"
    and "distinct (argsort (map uminus (bald_acquisition ops
           (mc_samples MC_output (map (\<lambda>i. X ! i) draw) T)))) \<Longrightarrow> distinct qi"
    and "0 < T"
proof -
  let ?acq = "bald_acquisition ops (mc_samples MC_output (map (\<lambda>i. X ! i) draw) T)"
  have dd: "distinct draw"
    using d by (simp add: is_draw_def)
  show T: "0 < T"
    using r bald_no_samples [OF d] by (cases "T = 0") auto
  have q: "query_rows X draw (py_slice_to n (argsort (map uminus ?acq))) = Inr (qi, qx)"
    using r bald_run [OF d T] by (simp add: top_query_def)
  show "set qi \<subseteq> set draw" "qx = map (\<lambda>i. X ! i) qi" "list_all (\<lambda>i. i < length X) qi"
    using query_rows_result(1,2,3) [OF q] .
  show "distinct qi" if "distinct (argsort (map uminus ?acq))"
    using query_rows_distinct [OF q dd py_slice_to_distinct [OF that]] .
qed

lemma max_entropy_query:
  fixes X :: "'x list" and n :: int
  assumes draw: "is_draw (length X) 2000 draw"
    and net: "net_shape MC_output C"
    and T: "0 < T"
    and srt: "is_argsort (map uminus (max_entropy_acquisition ops
                (mc_samples MC_output (map (\<lambda>i. X ! i) draw) T)))
              (argsort (map uminus (max_entropy_acquisition ops
                (mc_samples MC_output (map (\<lambda>i. X ! i) draw) T))))"
  defines "MC \<equiv> mc_samples MC_output (map (\<lambda>i. X ! i) draw) T"
  defines "acq \<equiv> max_entropy_acquisition ops MC"
  defines "idx \<equiv> py_slice_to n (argsort (map uminus acq))"
  shows "max_entropy ops X n T draw MC_output argsort
           = Inr (map (\<lambda>j. draw ! j) idx, map (\<lambda>i. X ! i) (map (\<lambda>j. draw ! j) idx))"
    and "length acq = 2000"
    and "\<forall>i<2000. acq ! i = predictive_entropy ops MC C i"
    and "distinct (map (\<lambda>j. draw ! j) idx)"
    and "\<forall>j\<in>set idx. \<forall>k<2000. k \<notin> set idx \<longrightarrow> acq ! k \<le> acq ! j"
    and "length idx = (if 0 \<le> n then min (nat n) 2000 else 2000 - nat (- n))"
    and "set idx \<subseteq> {..<2000}"
proof -
  have tensor: "is_tensor T 2000 C MC"
    unfolding MC_def using draw net by (rule mc_samples_draw_tensor)
  show len: "length acq = 2000"
    unfolding acq_def using max_entropy_acquisition_nth(1) [OF tensor T] .
  show "\<forall>i<2000. acq ! i = predictive_entropy ops MC C i"
    unfolding acq_def using max_entropy_acquisition_nth(2) [OF tensor T] by blast
  have srt': "is_argsort (map uminus acq) (argsort (map uminus acq))"
    using srt by (simp add: acq_def MC_def)
  note tq = top_query_on_draw [where argsort = argsort and n = n, OF draw len srt',
      folded idx_def]
  show "max_entropy ops X n T draw MC_output argsort
           = Inr (map (\<lambda>j. draw ! j) idx, map (\<lambda>i. X ! i) (map (\<lambda>j. draw ! j) idx))"
    using tq(1) by (simp add: max_entropy_run [OF draw T] acq_def MC_def)
  show "distinct (map (\<lambda>j. draw ! j) idx)"
    using tq(2) .
  show "\<forall>j\<in>set idx. \<forall>k<2000. k \<notin> set idx \<longrightarrow> acq ! k \<le> acq ! j"
    using tq(3) .
  show "length idx = (if 0 \<le> n then min (nat n) 2000 else 2000 - nat (- n))"
    using tq(4) .
  show "set idx \<subseteq> {..<2000}"
    using tq(5) .
qed

lemma bald_query:
  fixes X :: "'x list" and n :: int
  assumes draw: "is_draw (length X) 2000 draw"
    and net: "net_shape MC_output C"
    and T: "0 < T"
    and srt: "is_argsort (map uminus (bald_acquisition ops
                (mc_samples MC_output (map (\<lambda>i. X ! i) draw) T)))
              (argsort (map uminus (bald_acquisition ops
                (mc_samples MC_output (map (\<lambda>i. X ! i) draw) T))))"
  defines "MC \<equiv> mc_samples MC_output (map (\<lambda>i. X ! i) draw) T"
  defines "acq \<equiv> bald_acquisition ops MC"
  defines "idx \<equiv> py_slice_to n (argsort (map uminus acq))"
  shows "bald ops X n T draw MC_output argsort
           = Inr (map (\<lambda>j. draw ! j) idx, map (\<lambda>i. X ! i) (map (\<lambda>j. draw ! j) idx))"
    and "length acq = 2000"
    and "\<forall>i<2000. acq ! i = mutual_information ops MC C i"
    and "distinct (map (\<lambda>j. draw ! j) idx)"
    and "\<forall>j\<in>set idx. \<forall>k<2000. k \<notin> set idx \<longrightarrow> acq ! k \<le> acq ! j"
    and "length idx = (if 0 \<le> n then min (nat n) 2000 else 2000 - nat (- n))"
    and "set idx \<subseteq> {..<2000}"
proof -
  have tensor: "is_tensor T 2000 C MC"
    unfolding MC_def using draw net by (rule mc_samples_draw_tensor)
  show len: "length acq = 2000"
    unfolding acq_def using bald_acquisition_nth(1) [OF tensor T] .
  show "\<forall>i<2000. acq ! i = mutual_information ops MC C i"
    unfolding acq_def using bald_acquisition_nth(2) [OF tensor T] by blast
  have srt': "is_argsort (map uminus acq) (argsort (map uminus acq))"
    using srt by (simp add: acq_def MC_def)
  note tq = top_query_on_draw [where argsort = argsort and n = n, OF draw len srt',
      folded idx_def]
  show "bald ops X n T draw MC_output argsort
           = Inr (map (\<lambda>j. draw ! j) idx, map (\<lambda>i. X ! i) (map (\<lambda>j. draw ! j) idx))"
    using tq(1) by (simp add: bald_run [OF draw T] acq_def MC_def)
  show "distinct (map (\<lambda>j. draw ! j) idx)"
    using tq(2) .
  show "\<forall>j\<in>set idx. \<forall>k<2000. k \<notin> set idx \<longrightarrow> acq ! k \<le> acq ! j"
    using tq(3) .
  show "length idx = (if 0 \<le> n then min (nat n) 2000 else 2000 - nat (- n))"
    using tq(4) .
  show "set idx \<subseteq> {..<2000}"
    using tq(5) .
qed

text \<open>
  How many indices come back does not depend on the arithmetic: on the pool of the rows
  0 to 2499, with the first 2000 positions drawn and a network of constant output, a call
  for \<open>n\<close> instances returns \<open>min n 2000\<close> indices (all but the last \<open>- n\<close> for a
  negative \<open>n\<close>).
\<close>

lemma max_entropy_count_on_witness:
  fixes n :: int
  shows "map_sum id (length \<circ> fst)
           (max_entropy ops [0..<2500::nat] n 100 [0..<2000]
              (constant_network [1 / 2, 1 / 2]) stable_argsort)
         = Inr (if 0 \<le> n then min (nat n) 2000 else 2000 - nat (- n))"
  using max_entropy_query(1,6) [where ops = ops and n = n and T = 100
      and argsort = stable_argsort, OF witness_draw witness_net _ stable_argsort_is_argsort]
  by simp

lemma bald_count_on_witness:
  fixes n :: int
  shows "map_sum id (length \<circ> fst)
           (bald ops [0..<2500::nat] n 100 [0..<2000]
              (constant_network [1 / 2, 1 / 2]) stable_argsort)
         = Inr (if 0 \<le> n then min (nat n) 2000 else 2000 - nat (- n))"
  using bald_query(1,6) [where ops = ops and n = n and T = 100
      and argsort = stable_argsort, OF witness_draw witness_net _ stable_argsort_is_argsort]
  by simp

text \<open>Without a forward pass \<open>max_entropy\<close> returns the first drawn position, \<open>bald\<close> raises.\<close>

lemma max_entropy_without_samples:
  "max_entropy ops [0..<2500::nat] 10 0 (map (\<lambda>i. i + 7) [0..<2000]) MC_output argsort
     = Inr ([7], [7])"
proof -
  have d: "is_draw (length [0..<2500::nat]) 2000 (map (\<lambda>i. i + 7) [0..<2000])"
    by (simp add: is_draw_def distinct_map list_all_iff inj_on_def)
  show ?thesis
    unfolding max_entropy_no_samples [OF d]
    by (simp add: query_rows_def py_slice_to_def fancy_index_def)
qed

lemma bald_without_samples:
  "bald ops [0..<2500::nat] 10 0 [0..<2000] MC_output argsort = Inl AxisError"
  using bald_no_samples [OF witness_draw] .

section \<open>Lemmas on the loop and the pools\<close>

lemma np_delete_Inr:
  assumes "np_delete xs idx = Inr ys"
  shows "ys = map (\<lambda>i. xs ! i) (filter (\<lambda>i. i \<notin> set idx) [0..<length xs])"
    and "list_all (\<lambda>i. i < length xs) idx"
  using assms by (auto simp: np_delete_def split: if_splits)

lemma length_filter_not_in:
  assumes "S \<subseteq> {..<n}"
  shows "length (filter (\<lambda>i. i \<notin> S) [0..<n]) = n - card S"
proof -
  have fin: "finite S"
    using assms finite_subset by blast
  have "length (filter (\<lambda>i. i \<notin> S) [0..<n]) = card ({i. i \<notin> S} \<inter> set [0..<n])"
    by (simp add: distinct_length_filter)
  also have "{i. i \<notin> S} \<inter> set [0..<n] = {..<n} - S"
    by auto
  also have "card ({..<n} - S) = n - card S"
    using assms fin by (simp add: card_Diff_subset)
  finally show ?thesis .
qed

lemma np_delete_length:
  assumes "np_delete xs idx = Inr ys"
  shows "length ys = length xs - card (set idx)"
proof -
  have "set idx \<subseteq> {..<length xs}"
    using np_delete_Inr(2) [OF assms] by (auto simp: list_all_iff)
  then show ?thesis
    using np_delete_Inr(1) [OF assms] by (simp add: length_filter_not_in)
qed

lemma np_delete_set:
  assumes "np_delete xs idx = Inr ys"
  shows "set ys \<subseteq> set xs"
  using np_delete_Inr(1) [OF assms] by auto

lemma np_delete_removes:
  assumes "np_delete xs idx = Inr ys" and "distinct xs" and "i \<in> set idx"
  shows "xs ! i \<notin> set ys"
proof
  assume "xs ! i \<in> set ys"
  then obtain j where j: "j < length xs" "j \<notin> set idx" "xs ! j = xs ! i"
    using np_delete_Inr(1) [OF assms(1)] by auto
  have "i < length xs"
    using np_delete_Inr(2) [OF assms(1)] assms(3) by (simp add: list_all_iff)
  then have "j = i"
    using j assms(2) by (simp add: nth_eq_iff_index_eq)
  then show False
    using j(2) assms(3) by simp
qed

lemma np_delete_zip:
  assumes "np_delete xs idx = Inr xs'" and "np_delete ys idx = Inr ys'"
    and "length xs = length ys"
  shows "zip xs' ys' = map (\<lambda>i. zip xs ys ! i) (filter (\<lambda>i. i \<notin> set idx) [0..<length xs])"
    and "np_delete (zip xs ys) idx = Inr (zip xs' ys')"
proof -
  let ?keep = "filter (\<lambda>i. i \<notin> set idx) [0..<length xs]"
  have xs': "xs' = map (\<lambda>i. xs ! i) ?keep" and ys': "ys' = map (\<lambda>i. ys ! i) ?keep"
    using np_delete_Inr(1) [OF assms(1)] np_delete_Inr(1) [OF assms(2)] assms(3) by simp_all
  have "zip xs' ys' = map (\<lambda>i. (xs ! i, ys ! i)) ?keep"
    unfolding xs' ys' by (rule zip_map_same)
  also have "\<dots> = map (\<lambda>i. zip xs ys ! i) ?keep"
    using assms(3) by (intro map_cong) auto
  finally show z: "zip xs' ys' = map (\<lambda>i. zip xs ys ! i) ?keep" .
  show "np_delete (zip xs ys) idx = Inr (zip xs' ys')"
    using np_delete_Inr(2) [OF assms(1)] assms(3) z by (simp add: np_delete_def)
qed

lemma al_step_Inr:
  assumes "al_step lib X_test y_test n s = Inr s'"
  shows "\<exists>qi qx l1 acc.
           query lib (learner s) (X_pool s) n = Inr ((qi, qx), l1) \<and>
           list_all (\<lambda>i. i < length (X_pool s)) qi \<and>
           list_all (\<lambda>i. i < length (y_pool s)) qi \<and>
           np_delete (X_pool s) qi = Inr (X_pool s') \<and>
           np_delete (y_pool s) qi = Inr (y_pool s') \<and>
           teach lib l1 (map (\<lambda>i. X_pool s ! i) qi) (map (\<lambda>i. y_pool s ! i) qi)
             = Inr (learner s') \<and>
           score lib (learner s') X_test y_test = Inr acc \<and>
           perf_hist s' = perf_hist s @ [acc]"
  using assms
  by (auto simp: al_step_def fancy_index_def split: sum.splits prod.splits if_splits)

lemma al_step_calls:
  assumes "query lib (learner s) (X_pool s) n = Inr ((qi, qx), l1)"
    and "list_all (\<lambda>i. i < length (X_pool s)) qi"
    and "list_all (\<lambda>i. i < length (y_pool s)) qi"
    and "teach lib l1 (map (\<lambda>i. X_pool s ! i) qi) (map (\<lambda>i. y_pool s ! i) qi) = Inr l2"
    and "score lib l2 X_test y_test = Inr acc"
  shows "al_step lib X_test y_test n s
           = Inr \<lparr>learner = l2,
                  X_pool = map (\<lambda>i. X_pool s ! i)
                             (filter (\<lambda>i. i \<notin> set qi) [0..<length (X_pool s)]),
                  y_pool = map (\<lambda>i. y_pool s ! i)
                             (filter (\<lambda>i. i \<notin> set qi) [0..<length (y_pool s)]),
                  perf_hist = perf_hist s @ [acc]\<rparr>"
  using assms by (simp add: al_step_def fancy_index_def np_delete_def)

text \<open>The error of the loop body is the error of the first call in it that fails.\<close>

lemma al_step_error:
  "al_step lib X_test y_test n s = Inl e \<longleftrightarrow>
     query lib (learner s) (X_pool s) n = Inl e \<or>
     (\<exists>qi qx l1. query lib (learner s) (X_pool s) n = Inr ((qi, qx), l1) \<and>
        (if \<not> list_all (\<lambda>i. i < length (X_pool s)) qi then e = IndexError
         else if \<not> list_all (\<lambda>i. i < length (y_pool s)) qi then e = IndexError
         else
           teach lib l1 (map (\<lambda>i. X_pool s ! i) qi) (map (\<lambda>i. y_pool s ! i) qi) = Inl e \<or>
           (\<exists>l2. teach lib l1 (map (\<lambda>i. X_pool s ! i) qi) (map (\<lambda>i. y_pool s ! i) qi)
                   = Inr l2 \<and>
                 score lib l2 X_test y_test = Inl e)))"
  by (auto simp: al_step_def fancy_index_def np_delete_def
      split: sum.splits prod.splits if_splits)

lemma al_loop_add:
  "al_loop lib X_test y_test n (j + m) s =
     (case al_loop lib X_test y_test n j s of
        Inl e \<Rightarrow> Inl e
      | Inr sj \<Rightarrow> al_loop lib X_test y_test n m sj)"
  by (induction j arbitrary: s) (simp_all split: sum.splits)

lemma al_loop_prefix:
  assumes "al_loop lib X_test y_test n k s = Inr s'" and "j \<le> k"
  shows "\<exists>sj. al_loop lib X_test y_test n j s = Inr sj \<and>
              al_loop lib X_test y_test n (k - j) sj = Inr s'"
  using assms al_loop_add [of lib X_test y_test n j "k - j" s]
  by (auto split: sum.splits)

lemma al_loop_hist:
  assumes "al_loop lib X_test y_test n k s = Inr s'"
  shows "\<exists>new. perf_hist s' = perf_hist s @ new \<and> length new = k"
  using assms
proof (induction k arbitrary: s)
  case 0
  then show ?case by simp
next
  case (Suc k)
  then obtain s1 where s1: "al_step lib X_test y_test n s = Inr s1"
    and rest: "al_loop lib X_test y_test n k s1 = Inr s'"
    by (auto split: sum.splits)
  obtain new where new: "perf_hist s' = perf_hist s1 @ new" "length new = k"
    using Suc.IH [OF rest] by blast
  obtain acc where "perf_hist s1 = perf_hist s @ [acc]"
    using al_step_Inr [OF s1] by blast
  then show ?case
    using new by simp
qed

lemma al_loop_last:
  assumes "al_loop lib X_test y_test n (Suc j) s = Inr sj"
  shows "score lib (learner sj) X_test y_test = Inr (last (perf_hist sj))"
proof -
  obtain sp where "al_loop lib X_test y_test n j s = Inr sp"
    and "al_loop lib X_test y_test n (Suc j - j) sp = Inr sj"
    using al_loop_prefix [OF assms, of j] by auto
  then have "al_step lib X_test y_test n sp = Inr sj"
    by (simp split: sum.splits)
  then show ?thesis
    using al_step_Inr [of lib X_test y_test n sp sj] by auto
qed

lemma al_loop_nth:
  assumes run: "al_loop lib X_test y_test n k s = Inr s'" and j: "1 \<le> j" "j \<le> k"
  shows "\<exists>sj. al_loop lib X_test y_test n j s = Inr sj \<and>
              score lib (learner sj) X_test y_test
                = Inr (perf_hist s' ! (length (perf_hist s) + j - 1))"
proof -
  obtain sj where sj: "al_loop lib X_test y_test n j s = Inr sj"
    and rest: "al_loop lib X_test y_test n (k - j) sj = Inr s'"
    using al_loop_prefix [OF run j(2)] by blast
  obtain new where new: "perf_hist sj = perf_hist s @ new" "length new = j"
    using al_loop_hist [OF sj] by blast
  obtain more where more: "perf_hist s' = perf_hist sj @ more"
    using al_loop_hist [OF rest] by blast
  obtain j' where j': "j = Suc j'"
    using j(1) by (cases j) auto
  have ne: "perf_hist sj \<noteq> []"
    using new j(1) by auto
  have "perf_hist s' ! (length (perf_hist s) + j - 1) = perf_hist sj ! (length (perf_hist sj) - 1)"
    using new j(1) by (simp add: more nth_append)
  also have "\<dots> = last (perf_hist sj)"
    using ne by (simp add: last_conv_nth)
  finally show ?thesis
    using al_loop_last sj unfolding j' by metis
qed

lemma calls_succeed_Suc:
  "calls_succeed lib X_test y_test n (Suc k) s \<longleftrightarrow>
     (\<exists>qi qx l1 l2 acc.
        query lib (learner s) (X_pool s) n = Inr ((qi, qx), l1) \<and>
        list_all (\<lambda>i. i < length (X_pool s)) qi \<and>
        list_all (\<lambda>i. i < length (y_pool s)) qi \<and>
        teach lib l1 (map (\<lambda>i. X_pool s ! i) qi) (map (\<lambda>i. y_pool s ! i) qi) = Inr l2 \<and>
        score lib l2 X_test y_test = Inr acc \<and>
        calls_succeed lib X_test y_test n k
          \<lparr>learner = l2,
           X_pool = map (\<lambda>i. X_pool s ! i)
                      (filter (\<lambda>i. i \<notin> set qi) [0..<length (X_pool s)]),
           y_pool = map (\<lambda>i. y_pool s ! i)
                      (filter (\<lambda>i. i \<notin> set qi) [0..<length (y_pool s)]),
           perf_hist = perf_hist s @ [acc]\<rparr>)"
proof (cases "query lib (learner s) (X_pool s) n")
  case (Inl e)
  then show ?thesis by simp
next
  case (Inr r)
  obtain qi qx l1 where r: "r = ((qi, qx), l1)"
    by (cases r) auto
  note q = Inr [unfolded r]
  show ?thesis
  proof (cases "teach lib l1 (map (\<lambda>i. X_pool s ! i) qi) (map (\<lambda>i. y_pool s ! i) qi)")
    case (Inl e)
    then show ?thesis using q by simp
  next
    case t: (Inr l2)
    show ?thesis
    proof (cases "score lib l2 X_test y_test")
      case (Inl e)
      then show ?thesis using q t by simp
    next
      case (Inr acc)
      then show ?thesis using q t by simp
    qed
  qed
qed

lemma calls_succeed_iff:
  "calls_succeed lib X_test y_test n k s \<longleftrightarrow> (\<exists>s'. al_loop lib X_test y_test n k s = Inr s')"
proof (induction k arbitrary: s)
  case 0
  show ?case by simp
next
  case (Suc k)
  show ?case
  proof
    assume "calls_succeed lib X_test y_test n (Suc k) s"
    then obtain qi qx l1 l2 acc where
      q: "query lib (learner s) (X_pool s) n = Inr ((qi, qx), l1)"
      and r: "list_all (\<lambda>i. i < length (X_pool s)) qi" "list_all (\<lambda>i. i < length (y_pool s)) qi"
      and t: "teach lib l1 (map (\<lambda>i. X_pool s ! i) qi) (map (\<lambda>i. y_pool s ! i) qi) = Inr l2"
      and sc: "score lib l2 X_test y_test = Inr acc"
      and rest: "calls_succeed lib X_test y_test n k
          \<lparr>learner = l2,
           X_pool = map (\<lambda>i. X_pool s ! i)
                      (filter (\<lambda>i. i \<notin> set qi) [0..<length (X_pool s)]),
           y_pool = map (\<lambda>i. y_pool s ! i)
                      (filter (\<lambda>i. i \<notin> set qi) [0..<length (y_pool s)]),
           perf_hist = perf_hist s @ [acc]\<rparr>"
      unfolding calls_succeed_Suc by blast
    show "\<exists>s'. al_loop lib X_test y_test n (Suc k) s = Inr s'"
      using Suc.IH rest al_step_calls [OF q r t sc] by simp
  next
    assume "\<exists>s'. al_loop lib X_test y_test n (Suc k) s = Inr s'"
    then obtain s1 s' where s1: "al_step lib X_test y_test n s = Inr s1"
      and rest: "al_loop lib X_test y_test n k s1 = Inr s'"
      by (auto split: sum.splits)
    obtain qi qx l1 acc where
      q: "query lib (learner s) (X_pool s) n = Inr ((qi, qx), l1)"
      and r: "list_all (\<lambda>i. i < length (X_pool s)) qi" "list_all (\<lambda>i. i < length (y_pool s)) qi"
      and t: "teach lib l1 (map (\<lambda>i. X_pool s ! i) qi) (map (\<lambda>i. y_pool s ! i) qi)
                = Inr (learner s1)"
      and sc: "score lib (learner s1) X_test y_test = Inr acc"
      using al_step_Inr [OF s1] by blast
    have "calls_succeed lib X_test y_test n k s1"
      using Suc.IH rest by blast
    moreover have "s1 = \<lparr>learner = learner s1,
                  X_pool = map (\<lambda>i. X_pool s ! i)
                             (filter (\<lambda>i. i \<notin> set qi) [0..<length (X_pool s)]),
                  y_pool = map (\<lambda>i. y_pool s ! i)
                             (filter (\<lambda>i. i \<notin> set qi) [0..<length (y_pool s)]),
                  perf_hist = perf_hist s @ [acc]\<rparr>"
      using al_step_calls [OF q r t sc] s1 by simp
    ultimately show "calls_succeed lib X_test y_test n (Suc k) s"
      unfolding calls_succeed_Suc using q r t sc by metis
  qed
qed

lemma al_loop_error:
  "al_loop lib X_test y_test n k s = Inl e \<longleftrightarrow>
     (\<exists>j sj. j < k \<and> al_loop lib X_test y_test n j s = Inr sj \<and>
             al_step lib X_test y_test n sj = Inl e)"
proof (induction k arbitrary: s)
  case 0
  show ?case by simp
next
  case (Suc k)
  show ?case
  proof (cases "al_step lib X_test y_test n s")
    case (Inl e')
    have only: "al_loop lib X_test y_test n j s = Inr sj \<Longrightarrow> j = 0 \<and> sj = s" for j sj
      using Inl by (cases j) simp_all
    have "(\<exists>j sj. j < Suc k \<and> al_loop lib X_test y_test n j s = Inr sj \<and>
                 al_step lib X_test y_test n sj = Inl e) \<longleftrightarrow> e' = e"
    proof
      assume "\<exists>j sj. j < Suc k \<and> al_loop lib X_test y_test n j s = Inr sj \<and>
                 al_step lib X_test y_test n sj = Inl e"
      then obtain j sj where "al_loop lib X_test y_test n j s = Inr sj"
        and e: "al_step lib X_test y_test n sj = Inl e"
        by blast
      then have "sj = s"
        using only by blast
      then show "e' = e"
        using e Inl by simp
    next
      assume "e' = e"
      then have "0 < Suc k \<and> al_loop lib X_test y_test n 0 s = Inr s \<and>
                 al_step lib X_test y_test n s = Inl e"
        using Inl by simp
      then show "\<exists>j sj. j < Suc k \<and> al_loop lib X_test y_test n j s = Inr sj \<and>
                 al_step lib X_test y_test n sj = Inl e"
        by blast
    qed
    then show ?thesis
      using Inl by simp
  next
    case (Inr s1)
    have "(\<exists>j sj. j < Suc k \<and> al_loop lib X_test y_test n j s = Inr sj \<and>
             al_step lib X_test y_test n sj = Inl e)
          \<longleftrightarrow> (\<exists>j sj. j < k \<and> al_loop lib X_test y_test n j s1 = Inr sj \<and>
                 al_step lib X_test y_test n sj = Inl e)"
    proof
      assume "\<exists>j sj. j < Suc k \<and> al_loop lib X_test y_test n j s = Inr sj \<and>
                al_step lib X_test y_test n sj = Inl e"
      then obtain j sj where j: "j < Suc k" "al_loop lib X_test y_test n j s = Inr sj"
        "al_step lib X_test y_test n sj = Inl e"
        by blast
      then obtain j' where "j = Suc j'"
        using Inr by (cases j) auto
      then show "\<exists>j sj. j < k \<and> al_loop lib X_test y_test n j s1 = Inr sj \<and>
                   al_step lib X_test y_test n sj = Inl e"
        using j Inr by auto
    next
      assume "\<exists>j sj. j < k \<and> al_loop lib X_test y_test n j s1 = Inr sj \<and>
                al_step lib X_test y_test n sj = Inl e"
      then obtain j sj where "j < k" "al_loop lib X_test y_test n j s1 = Inr sj"
        "al_step lib X_test y_test n sj = Inl e"
        by blast
      then have "Suc j < Suc k \<and> al_loop lib X_test y_test n (Suc j) s = Inr sj \<and>
                 al_step lib X_test y_test n sj = Inl e"
        using Inr by simp
      then show "\<exists>j sj. j < Suc k \<and> al_loop lib X_test y_test n j s = Inr sj \<and>
                   al_step lib X_test y_test n sj = Inl e"
        by blast
    qed
    then show ?thesis
      using Inr Suc.IH by simp
  qed
qed

lemma al_step_pools:
  assumes eq: "length (X_pool s) = length (y_pool s)"
    and step: "al_step lib X_test y_test n s = Inr s1"
  shows "length (X_pool s1) = length (y_pool s1)"
    and "set (zip (X_pool s1) (y_pool s1)) \<subseteq> set (zip (X_pool s) (y_pool s))"
    and "set (X_pool s1) \<subseteq> set (X_pool s)"
proof -
  obtain qi where dx: "np_delete (X_pool s) qi = Inr (X_pool s1)"
    and dy: "np_delete (y_pool s) qi = Inr (y_pool s1)"
    using al_step_Inr [OF step] by blast
  show "length (X_pool s1) = length (y_pool s1)"
    using np_delete_length [OF dx] np_delete_length [OF dy] eq by simp
  show "set (zip (X_pool s1) (y_pool s1)) \<subseteq> set (zip (X_pool s) (y_pool s))"
    using np_delete_set [OF np_delete_zip(2) [OF dx dy eq]] .
  show "set (X_pool s1) \<subseteq> set (X_pool s)"
    using np_delete_set [OF dx] .
qed

lemma al_loop_pools:
  assumes "length (X_pool s) = length (y_pool s)"
    and "al_loop lib X_test y_test n k s = Inr s2"
  shows "length (X_pool s2) = length (y_pool s2) \<and>
         set (zip (X_pool s2) (y_pool s2)) \<subseteq> set (zip (X_pool s) (y_pool s)) \<and>
         set (X_pool s2) \<subseteq> set (X_pool s)"
  using assms
proof (induction k arbitrary: s)
  case 0
  then show ?case by simp
next
  case (Suc k)
  then obtain s1 where s1: "al_step lib X_test y_test n s = Inr s1"
    and rest: "al_loop lib X_test y_test n k s1 = Inr s2"
    by (auto split: sum.splits)
  note one = al_step_pools [OF Suc.prems(1) s1]
  note IH = Suc.IH [OF one(1) rest]
  show ?case
    using IH one(2,3) by blast
qed

section \<open>Lemmas on the initial draw\<close>

lemma to_categorical_Inr:
  assumes "list_all (\<lambda>label. label < k) y"
  shows "to_categorical y k
           = Inr (map (\<lambda>label. map (\<lambda>c. if c = label then 1 else 0) [0..<k]) y)"
  using assms by (simp add: to_categorical_def)

lemma np_where_one_hot:
  assumes "list_all (\<lambda>label. label < k) y" and "c < k"
  shows "np_where_column_is_1
           (map (\<lambda>label. map (\<lambda>c. if c = label then 1 else 0) [0..<k]) y) c
         = class_rows y c"
  unfolding np_where_column_is_1_def class_rows_def
  using assms by (auto intro!: filter_cong simp: list_all_length split: if_splits)

lemma chunk_props:
  assumes "is_draw (length (class_rows y c)) 2 (draws c)"
  shows "length (chunk y draws c) = 2" and "distinct (chunk y draws c)"
    and "set (chunk y draws c) \<subseteq> set (class_rows y c)"
proof -
  have d: "length (draws c) = 2" "distinct (draws c)"
    "\<And>p. p \<in> set (draws c) \<Longrightarrow> p < length (class_rows y c)"
    using assms by (auto simp: is_draw_def list_all_iff)
  show "length (chunk y draws c) = 2"
    using d(1) by (simp add: chunk_def)
  show "set (chunk y draws c) \<subseteq> set (class_rows y c)"
    using d(3) by (auto simp: chunk_def)
  have "distinct (class_rows y c)"
    by (simp add: class_rows_def)
  then have "inj_on (\<lambda>p. class_rows y c ! p) (set (draws c))"
    using d(3) by (auto simp: inj_on_def nth_eq_iff_index_eq)
  then show "distinct (chunk y draws c)"
    using d(2) by (simp add: chunk_def distinct_map)
qed

lemma class_rows_label: "j \<in> set (class_rows y c) \<Longrightarrow> y ! j = c \<and> j < length y"
  by (simp add: class_rows_def)

lemma initial_idx_loop_Inr:
  assumes "list_all (\<lambda>label. label < k) y"
    and "list_all (\<lambda>c. c < k \<and> is_draw (length (class_rows y c)) 2 (draws c)) cls"
  shows "initial_idx_loop (map (\<lambda>label. map (\<lambda>c. if c = label then 1 else 0) [0..<k]) y)
           draws cls acc
         = Inr (acc @ concat (map (chunk y draws) cls))"
  using assms(2)
proof (induction cls arbitrary: acc)
  case Nil
  then show ?case by simp
next
  case (Cons c cls)
  have c: "c < k" and d: "is_draw (length (class_rows y c)) 2 (draws c)"
    and rest: "list_all (\<lambda>c. c < k \<and> is_draw (length (class_rows y c)) 2 (draws c)) cls"
    using Cons.prems by simp_all
  have "np_random_choice (class_rows y c) 2 (draws c) = Inr (chunk y draws c)"
    using is_draw_le [OF d] by (simp add: np_random_choice_def chunk_def)
  then show ?case
    using Cons.IH [OF rest] np_where_one_hot [OF assms(1) c] by simp
qed

lemma chunks_distinct:
  assumes "distinct cls"
    and "list_all (\<lambda>c. is_draw (length (class_rows y c)) 2 (draws c)) cls"
  shows "distinct (concat (map (chunk y draws) cls))"
    and "\<forall>j\<in>set (concat (map (chunk y draws) cls)). y ! j \<in> set cls \<and> j < length y"
    and "length (concat (map (chunk y draws) cls)) = 2 * length cls"
    and "length (filter (\<lambda>j. y ! j = c) (concat (map (chunk y draws) cls)))
           = (if c \<in> set cls then 2 else 0)"
  using assms
proof (induction cls)
  case Nil
  { case 1 show ?case by simp }
  { case 2 show ?case by simp }
  { case 3 show ?case by simp }
  { case 4 show ?case by simp }
next
  case (Cons a cls)
  { case 1
    have d: "is_draw (length (class_rows y a)) 2 (draws a)"
      and rest: "list_all (\<lambda>c. is_draw (length (class_rows y c)) 2 (draws c)) cls"
      and dist: "distinct cls" and a: "a \<notin> set cls"
      using 1 by simp_all
    have "\<forall>j\<in>set (chunk y draws a). y ! j = a"
      using chunk_props(3) [where draws = draws and c = a, OF d] class_rows_label by blast
    then have "set (chunk y draws a) \<inter> set (concat (map (chunk y draws) cls)) = {}"
      using Cons.IH(2) [OF dist rest] a by fastforce
    then show ?case
      using chunk_props(2) [where draws = draws and c = a, OF d] Cons.IH(1) [OF dist rest] by simp }
  { case 2
    have d: "is_draw (length (class_rows y a)) 2 (draws a)"
      and rest: "list_all (\<lambda>c. is_draw (length (class_rows y c)) 2 (draws c)) cls"
      and dist: "distinct cls"
      using 2 by simp_all
    show ?case
      using chunk_props(3) [where draws = draws and c = a, OF d] class_rows_label [of _ y a] Cons.IH(2) [OF dist rest]
      by auto }
  { case 3
    have d: "is_draw (length (class_rows y a)) 2 (draws a)"
      and rest: "list_all (\<lambda>c. is_draw (length (class_rows y c)) 2 (draws c)) cls"
      and dist: "distinct cls"
      using 3 by simp_all
    show ?case
      using chunk_props(1) [where draws = draws and c = a, OF d] Cons.IH(3) [OF dist rest] by simp }
  { case 4
    have d: "is_draw (length (class_rows y a)) 2 (draws a)"
      and rest: "list_all (\<lambda>c. is_draw (length (class_rows y c)) 2 (draws c)) cls"
      and dist: "distinct cls" and a: "a \<notin> set cls"
      using 4 by simp_all
    have lab: "\<forall>j\<in>set (chunk y draws a). y ! j = a"
      using chunk_props(3) [where draws = draws and c = a, OF d] class_rows_label by blast
    have "filter (\<lambda>j. y ! j = c) (chunk y draws a) = (if c = a then chunk y draws a else [])"
      using lab by (auto simp: filter_id_conv filter_empty_conv)
    then show ?case
      using chunk_props(1) [where draws = draws and c = a, OF d] Cons.IH(4) [OF dist rest] a by auto }
qed

lemma class_rows_two:
  assumes "a < b" and "b < length y" and "y ! a = c" and "y ! b = c"
  shows "2 \<le> length (class_rows y c)"
proof -
  have "{a, b} \<subseteq> set (class_rows y c)"
    using assms by (simp add: class_rows_def)
  then have "card {a, b} \<le> card (set (class_rows y c))"
    by (intro card_mono) simp_all
  moreover have "distinct (class_rows y c)"
    by (simp add: class_rows_def)
  then have "card (set (class_rows y c)) = length (class_rows y c)"
    by (rule distinct_card)
  ultimately show ?thesis
    using assms(1) by simp
qed

lemma to_categorical_one_hot:
  assumes "list_all (\<lambda>label. label < 10) y"
  shows "to_categorical y 10 = Inr (map one_hot y)"
  using assms by (simp add: to_categorical_def one_hot_def)

lemma one_hot_inj: "c < 10 \<Longrightarrow> one_hot c' = one_hot c \<longleftrightarrow> c' = c"
proof
  assume c: "c < 10" and eq: "one_hot c' = one_hot c"
  have "one_hot c' ! c = one_hot c ! c"
    using eq by simp
  then show "c' = c"
    using c by (simp add: one_hot_def split: if_splits)
qed simp

section \<open>The acquisition functions\<close>

text \<open>
  C1, as stated, fails: asked for 3000 instances on a pool of 2500,
  \<open>max_entropy\<close> returns 2000 indices, not the 3000 points with the largest score.
\<close>

theorem max_entropy_returns_2000_of_3000:
  "is_draw (length [0..<2500::nat]) 2000 [0..<2000] \<and>
   net_shape (constant_network [1 / 2, 1 / 2] :: nat network) 2 \<and>
   is_argsort
     (map uminus (max_entropy_acquisition exact_ops
        (mc_samples (constant_network [1 / 2, 1 / 2])
           (map (\<lambda>i. [0..<2500::nat] ! i) [0..<2000]) 100)))
     (stable_argsort (map uminus (max_entropy_acquisition exact_ops
        (mc_samples (constant_network [1 / 2, 1 / 2])
           (map (\<lambda>i. [0..<2500::nat] ! i) [0..<2000]) 100)))) \<and>
   map_sum id (length \<circ> fst)
     (max_entropy exact_ops [0..<2500::nat] 3000 100 [0..<2000]
        (constant_network [1 / 2, 1 / 2]) stable_argsort) = Inr 2000"
  using max_entropy_count_on_witness [of exact_ops 3000]
    witness_draw witness_net stable_argsort_is_argsort
  by simp

text \<open>
  C1, amended.  Let the random draw give 2000 distinct pool positions, the network give
  one row of \<open>C\<close> class probabilities per batch element, the sort list the negated scores
  in ascending order and \<open>T\<close> be positive.  Then \<open>max_entropy\<close> returns: the score of
  candidate \<open>i\<close> is the entropy \<open>- sum over c of p_bar(i,c) * log(p_bar(i,c) + 1e-10)\<close> of
  the mean \<open>p_bar\<close> of the \<open>T\<close> sampled distributions, each operation being that of the
  arrays' arithmetic; the result holds the pool indices of the candidates listed first by
  the descending sort, \<open>min n_instances 2000\<close> of them (for a negative \<open>n_instances\<close>,
  all but the last \<open>- n_instances\<close>), pairwise distinct, each with a score at least that
  of every candidate left out; and the second component is \<open>X\<close> at these indices.
\<close>

theorem max_entropy_selects_highest_entropy:
  fixes X :: "'x list" and n_instances :: int
  assumes draw: "is_draw (length X) 2000 draw"
    and net: "net_shape MC_output C"
    and T: "0 < T"
    and srt: "is_argsort (map uminus (max_entropy_acquisition ops
                (mc_samples MC_output (map (\<lambda>i. X ! i) draw) T)))
              (argsort (map uminus (max_entropy_acquisition ops
                (mc_samples MC_output (map (\<lambda>i. X ! i) draw) T))))"
  defines "MC \<equiv> mc_samples MC_output (map (\<lambda>i. X ! i) draw) T"
  defines "acquisition \<equiv> max_entropy_acquisition ops MC"
  defines "idx \<equiv> py_slice_to n_instances (argsort (map uminus acquisition))"
  defines "query_idx \<equiv> map (\<lambda>j. draw ! j) idx"
  shows "max_entropy ops X n_instances T draw MC_output argsort
           = Inr (query_idx, map (\<lambda>i. X ! i) query_idx) \<and>
         length acquisition = 2000 \<and>
         (\<forall>i<2000. acquisition ! i = predictive_entropy ops MC C i) \<and>
         length query_idx
           = (if 0 \<le> n_instances then min (nat n_instances) 2000
              else 2000 - nat (- n_instances)) \<and>
         distinct query_idx \<and>
         set idx \<subseteq> {..<2000} \<and>
         (\<forall>j\<in>set idx. \<forall>k<2000. k \<notin> set idx \<longrightarrow> acquisition ! k \<le> acquisition ! j)"
proof -
  note q = max_entropy_query(1,4,5,6,7) [where ops = ops and n = n_instances
      and argsort = argsort, OF draw net T srt, folded MC_def, folded acquisition_def,
      folded idx_def, folded query_idx_def]
  note s = max_entropy_query(2,3) [where ops = ops and argsort = argsort,
      OF draw net T srt, folded MC_def, folded acquisition_def]
  have "length query_idx
          = (if 0 \<le> n_instances then min (nat n_instances) 2000
             else 2000 - nat (- n_instances))"
    using q(4) by (simp add: query_idx_def)
  then show ?thesis
    using q(1,2,3,5) s by blast
qed

theorem max_entropy_selects_highest_entropy_witness:
  "is_draw (length [0..<2500::nat]) 2000 [0..<2000] \<and>
   net_shape (constant_network [1 / 2, 1 / 2] :: nat network) 2 \<and>
   is_argsort
     (map uminus (max_entropy_acquisition exact_ops
        (mc_samples (constant_network [1 / 2, 1 / 2])
           (map (\<lambda>i. [0..<2500::nat] ! i) [0..<2000]) 100)))
     (stable_argsort (map uminus (max_entropy_acquisition exact_ops
        (mc_samples (constant_network [1 / 2, 1 / 2])
           (map (\<lambda>i. [0..<2500::nat] ! i) [0..<2000]) 100)))) \<and>
   map_sum id (length \<circ> fst)
     (max_entropy exact_ops [0..<2500::nat] 10 100 [0..<2000]
        (constant_network [1 / 2, 1 / 2]) stable_argsort) = Inr 10"
proof -
  have "0 < (100::nat)"
    by simp
  note t = max_entropy_selects_highest_entropy [where ops = exact_ops and n_instances = 10
      and argsort = stable_argsort, OF witness_draw witness_net this
      stable_argsort_is_argsort]
  have "map_sum id (length \<circ> fst)
     (max_entropy exact_ops [0..<2500::nat] 10 100 [0..<2000]
        (constant_network [1 / 2, 1 / 2]) stable_argsort) = Inr 10"
    using t by simp
  with witness_draw witness_net stable_argsort_is_argsort show ?thesis
    by blast
qed

text \<open>
  C2, as stated, fails: asked for 2001 instances on a pool of 2500, \<open>bald\<close>
  returns 2000 indices, not the 2001 points with the largest score.
\<close>

theorem bald_returns_2000_of_2001:
  "is_draw (length [0..<2500::nat]) 2000 [0..<2000] \<and>
   net_shape (constant_network [1 / 2, 1 / 2] :: nat network) 2 \<and>
   is_argsort
     (map uminus (bald_acquisition exact_ops
        (mc_samples (constant_network [1 / 2, 1 / 2])
           (map (\<lambda>i. [0..<2500::nat] ! i) [0..<2000]) 100)))
     (stable_argsort (map uminus (bald_acquisition exact_ops
        (mc_samples (constant_network [1 / 2, 1 / 2])
           (map (\<lambda>i. [0..<2500::nat] ! i) [0..<2000]) 100)))) \<and>
   map_sum id (length \<circ> fst)
     (bald exact_ops [0..<2500::nat] 2001 100 [0..<2000]
        (constant_network [1 / 2, 1 / 2]) stable_argsort) = Inr 2000"
  using bald_count_on_witness [of exact_ops 2001]
    witness_draw witness_net stable_argsort_is_argsort
  by simp

text \<open>
  C2, amended.  Under the same conditions \<open>bald\<close> returns: the score of candidate \<open>i\<close> is
  the entropy of the mean of the \<open>T\<close> sampled distributions minus the mean over the \<open>T\<close>
  samples of the entropy of each sampled distribution, every entropy with \<open>1e-10\<close> added
  inside the logarithm and each operation being that of the arrays' arithmetic; the result
  holds the pool indices of the candidates listed first by the descending sort,
  \<open>min n_instances 2000\<close> of them (for a negative \<open>n_instances\<close>, all but the last
  \<open>- n_instances\<close>), pairwise distinct, each with a score at least that of every candidate
  left out, and \<open>X\<close> at these indices.
\<close>

theorem bald_selects_highest_mutual_information:
  fixes X :: "'x list" and n_instances :: int
  assumes draw: "is_draw (length X) 2000 draw"
    and net: "net_shape MC_output C"
    and T: "0 < T"
    and srt: "is_argsort (map uminus (bald_acquisition ops
                (mc_samples MC_output (map (\<lambda>i. X ! i) draw) T)))
              (argsort (map uminus (bald_acquisition ops
                (mc_samples MC_output (map (\<lambda>i. X ! i) draw) T))))"
  defines "MC \<equiv> mc_samples MC_output (map (\<lambda>i. X ! i) draw) T"
  defines "acquisition \<equiv> bald_acquisition ops MC"
  defines "idx \<equiv> py_slice_to n_instances (argsort (map uminus acquisition))"
  defines "query_idx \<equiv> map (\<lambda>j. draw ! j) idx"
  shows "bald ops X n_instances T draw MC_output argsort
           = Inr (query_idx, map (\<lambda>i. X ! i) query_idx) \<and>
         length acquisition = 2000 \<and>
         (\<forall>i<2000. acquisition ! i = mutual_information ops MC C i) \<and>
         length query_idx
           = (if 0 \<le> n_instances then min (nat n_instances) 2000
              else 2000 - nat (- n_instances)) \<and>
         distinct query_idx \<and>
         set idx \<subseteq> {..<2000} \<and>
         (\<forall>j\<in>set idx. \<forall>k<2000. k \<notin> set idx \<longrightarrow> acquisition ! k \<le> acquisition ! j)"
proof -
  note q = bald_query(1,4,5,6,7) [where ops = ops and n = n_instances
      and argsort = argsort, OF draw net T srt, folded MC_def, folded acquisition_def,
      folded idx_def, folded query_idx_def]
  note s = bald_query(2,3) [where ops = ops and argsort = argsort,
      OF draw net T srt, folded MC_def, folded acquisition_def]
  have "length query_idx
          = (if 0 \<le> n_instances then min (nat n_instances) 2000
             else 2000 - nat (- n_instances))"
    using q(4) by (simp add: query_idx_def)
  then show ?thesis
    using q(1,2,3,5) s by blast
qed

theorem bald_selects_highest_mutual_information_witness:
  "is_draw (length [0..<2500::nat]) 2000 [0..<2000] \<and>
   net_shape (constant_network [1 / 2, 1 / 2] :: nat network) 2 \<and>
   is_argsort
     (map uminus (bald_acquisition exact_ops
        (mc_samples (constant_network [1 / 2, 1 / 2])
           (map (\<lambda>i. [0..<2500::nat] ! i) [0..<2000]) 100)))
     (stable_argsort (map uminus (bald_acquisition exact_ops
        (mc_samples (constant_network [1 / 2, 1 / 2])
           (map (\<lambda>i. [0..<2500::nat] ! i) [0..<2000]) 100)))) \<and>
   map_sum id (length \<circ> fst)
     (bald exact_ops [0..<2500::nat] 10 100 [0..<2000]
        (constant_network [1 / 2, 1 / 2]) stable_argsort) = Inr 10"
proof -
  have "0 < (100::nat)"
    by simp
  note t = bald_selects_highest_mutual_information [where ops = exact_ops and n_instances = 10
      and argsort = stable_argsort, OF witness_draw witness_net this
      stable_argsort_is_argsort]
  have "map_sum id (length \<circ> fst)
     (bald exact_ops [0..<2500::nat] 10 100 [0..<2000]
        (constant_network [1 / 2, 1 / 2]) stable_argsort) = Inr 10"
    using t by simp
  with witness_draw witness_net stable_argsort_is_argsort show ?thesis
    by blast
qed

text \<open>
  C3.  What \<open>var_ratio\<close> does in the notebook: once the 2000 positions are drawn and the
  forward passes are made, the line \<^verbatim>\<open>preds = np.argmax(a, axis=2)\<close> reads the name \<open>a\<close>,
  which no cell binds, and the call ends in a \<^verbatim>\<open>NameError\<close>.  No variation ratio is
  computed and no query is returned.
\<close>

theorem var_ratio_raises_NameError:
  assumes "is_draw (length X) 2000 draw"
  shows "var_ratio notebook_globals X n_instances T draw MC_output argsort = Inl (NameError ''a'')"
proof -
  have "list_all (\<lambda>p. p < length X) draw"
    using assms by (simp add: is_draw_def)
  then show ?thesis
    by (simp add: var_ratio_def np_random_choice_arange [OF assms] fancy_index_def
        notebook_binds_no_a Let_def)
qed

theorem var_ratio_raises_NameError_witness:
  "is_draw (length [0..<2500::nat]) 2000 [0..<2000] \<and>
   var_ratio notebook_globals [0..<2500::nat] 10 100 [0..<2000]
     (constant_network [1 / 2, 1 / 2]) stable_argsort = Inl (NameError ''a'')"
proof -
  have d: "is_draw (length [0..<2500::nat]) 2000 [0..<2000]"
    using is_draw_upt [of 2000 2500] by simp
  show ?thesis
    using var_ratio_raises_NameError [OF d] d by simp
qed

text \<open>
  C6.  In the notebook's namespace \<open>var_ratio\<close> returns no query, whatever the pool, the
  network and the draws are: it has no acquisition scores taken from the Monte Carlo
  samples and no top-\<open>n_instances\<close> selection.
\<close>

theorem var_ratio_returns_no_query:
  "var_ratio notebook_globals X n_instances T draw MC_output argsort \<noteq> Inr q"
  by (simp add: var_ratio_def notebook_binds_no_a Let_def split: sum.splits)

section \<open>What the strategies need and return\<close>

text \<open>
  C8.  \<open>max_entropy\<close>, \<open>var_ratio\<close> and \<open>bald\<close> begin with
  \<^verbatim>\<open>np.random.choice(X.shape[0], 2000, replace=False)\<close>.  On a pool of fewer than 2000
  points each of them ends in a \<^verbatim>\<open>ValueError\<close>, and so does \<open>uniform\<close> on a pool of fewer
  than \<open>n_instances\<close> points.  Where the draw is made it holds exactly 2000 distinct pool
  positions, the pool has at least 2000 points, and every index a strategy returns is one
  of the drawn positions.
\<close>

theorem subset_strategies_need_2000_points:
  fixes X :: "'x list" and n :: int
  shows "(length X < 2000 \<longrightarrow>
            max_entropy ops X n T draw MC_output argsort = Inl ValueError \<and>
            var_ratio g X n T draw MC_output argsort = Inl ValueError \<and>
            bald ops X n T draw MC_output argsort = Inl ValueError) \<and>
         (int (length X) < n \<longrightarrow> uniform X n udraw = Inl ValueError) \<and>
         (is_draw (length X) 2000 draw \<longrightarrow>
            np_random_choice [0..<length X] 2000 draw = Inr draw \<and>
            length draw = 2000 \<and> distinct draw \<and> list_all (\<lambda>p. p < length X) draw \<and>
            2000 \<le> length X \<and>
            (\<forall>qi qx. max_entropy ops X n T draw MC_output argsort = Inr (qi, qx)
                       \<longrightarrow> set qi \<subseteq> set draw) \<and>
            (\<forall>qi qx. var_ratio g X n T draw MC_output argsort = Inr (qi, qx)
                       \<longrightarrow> set qi \<subseteq> set draw) \<and>
            (\<forall>qi qx. bald ops X n T draw MC_output argsort = Inr (qi, qx)
                       \<longrightarrow> set qi \<subseteq> set draw))"
proof (intro conjI impI allI)
  assume small: "length X < 2000"
  then have c: "np_random_choice [0..<length X] 2000 draw = Inl ValueError"
    by (simp add: np_random_choice_too_few)
  show "max_entropy ops X n T draw MC_output argsort = Inl ValueError"
    by (simp add: max_entropy_def c)
  show "var_ratio g X n T draw MC_output argsort = Inl ValueError"
    by (simp add: var_ratio_def c)
  show "bald ops X n T draw MC_output argsort = Inl ValueError"
    by (simp add: bald_def c)
next
  assume "int (length X) < n"
  then show "uniform X n udraw = Inl ValueError"
    by (simp add: uniform_def np_random_choice_too_few)
next
  assume d: "is_draw (length X) 2000 draw"
  show "np_random_choice [0..<length X] 2000 draw = Inr draw"
    using d by (rule np_random_choice_arange)
  show "length draw = 2000" "distinct draw" "list_all (\<lambda>p. p < length X) draw"
    using d by (simp_all add: is_draw_def)
  show "2000 \<le> length X"
    using is_draw_le(2) [OF d] by simp
  have same: "map (\<lambda>p. [0..<length X] ! p) draw = draw"
    using np_random_choice_arange [OF d] is_draw_le [OF d] by (simp add: np_random_choice_def)
  { fix qi qx assume "max_entropy ops X n T draw MC_output argsort = Inr (qi, qx)"
    then show "set qi \<subseteq> set draw"
      using max_entropy_result(1) [OF d] by blast }
  { fix qi qx assume "bald ops X n T draw MC_output argsort = Inr (qi, qx)"
    then show "set qi \<subseteq> set draw"
      using bald_result(1) [OF d] by blast }
  { fix qi qx assume "var_ratio g X n T draw MC_output argsort = Inr (qi, qx)"
    then show "set qi \<subseteq> set draw"
      using var_ratio_result [of g X n T draw MC_output argsort qi qx] same by simp }
qed

theorem subset_strategies_need_2000_points_witness:
  "length [0..<3::nat] < 2000 \<and>
   max_entropy exact_ops [0..<3::nat] 10 100 [0..<3] (constant_network [1 / 2, 1 / 2]) stable_argsort
     = Inl ValueError \<and>
   var_ratio notebook_globals [0..<3::nat] 10 100 [0..<3] (constant_network [1 / 2, 1 / 2])
     stable_argsort = Inl ValueError \<and>
   bald exact_ops [0..<3::nat] 10 100 [0..<3] (constant_network [1 / 2, 1 / 2]) stable_argsort
     = Inl ValueError \<and>
   int (length [0..<3::nat]) < 10 \<and>
   uniform [0..<3::nat] 10 [0..<10] = Inl ValueError \<and>
   is_draw (length [0..<2500::nat]) 2000 [0..<2000] \<and>
   case_sum (\<lambda>e. False) (\<lambda>q. set (fst q) \<subseteq> set [0..<2000])
     (max_entropy exact_ops [0..<2500::nat] 10 100 [0..<2000] (constant_network [1 / 2, 1 / 2])
        stable_argsort)"
proof -
  let ?net = "constant_network [1 / 2, 1 / 2] :: nat network"
  have small: "length [0..<3::nat] < 2000" "int (length [0..<3::nat]) < 10"
    by simp_all
  note a = subset_strategies_need_2000_points
    [where X = "[0..<3::nat]" and ops = exact_ops and n = 10 and T = 100 and draw = "[0..<3]"
      and MC_output = ?net and argsort = stable_argsort and g = notebook_globals
      and udraw = "[0..<10]"]
  note b = subset_strategies_need_2000_points
    [where X = "[0..<2500::nat]" and ops = exact_ops and n = 10 and T = 100
      and draw = "[0..<2000]" and MC_output = ?net and argsort = stable_argsort
      and g = notebook_globals and udraw = "[]"]
  obtain qi qx where qi: "max_entropy exact_ops [0..<2500::nat] 10 100 [0..<2000] ?net
      stable_argsort = Inr (qi, qx)"
    using max_entropy_query(1) [where ops = exact_ops and n = 10 and T = 100
        and argsort = stable_argsort, OF witness_draw witness_net _ stable_argsort_is_argsort]
    by auto
  have "set qi \<subseteq> set [0..<2000]"
    using b witness_draw qi by blast
  then show ?thesis
    using a small witness_draw qi by simp
qed

text \<open>
  C10, as stated, fails: asked for 2001 instances on a pool of 2500, \<open>max_entropy\<close> returns
  normally with 2000 indices, all the candidates it evaluated.
\<close>

theorem max_entropy_returns_2000_of_2001:
  "is_draw (length [0..<2500::nat]) 2000 [0..<2000] \<and>
   net_shape (constant_network [1 / 2, 1 / 2] :: nat network) 2 \<and>
   is_argsort
     (map uminus (max_entropy_acquisition exact_ops
        (mc_samples (constant_network [1 / 2, 1 / 2])
           (map (\<lambda>i. [0..<2500::nat] ! i) [0..<2000]) 100)))
     (stable_argsort (map uminus (max_entropy_acquisition exact_ops
        (mc_samples (constant_network [1 / 2, 1 / 2])
           (map (\<lambda>i. [0..<2500::nat] ! i) [0..<2000]) 100)))) \<and>
   map_sum id (length \<circ> fst)
     (max_entropy exact_ops [0..<2500::nat] 2001 100 [0..<2000]
        (constant_network [1 / 2, 1 / 2]) stable_argsort) = Inr 2000"
  using max_entropy_count_on_witness [of exact_ops 2001]
    witness_draw witness_net stable_argsort_is_argsort
  by simp

text \<open>
  C10, amended.  Whenever \<open>uniform\<close>, \<open>max_entropy\<close> or \<open>bald\<close> returns normally, for any
  \<open>n_instances\<close> and \<open>T\<close>, the second component of the pair is \<open>X\<close> at the returned
  indices, row for row, and the indices are pairwise distinct and valid for \<open>X\<close>.
  \<open>uniform\<close> returns exactly \<open>n_instances\<close> indices; \<open>max_entropy\<close> and \<open>bald\<close>, for a
  non-negative \<open>n_instances\<close> and a positive \<open>T\<close>, exactly \<open>min n_instances 2000\<close>.  They
  do return: \<open>uniform\<close> on a pool that is not empty, \<open>max_entropy\<close> and \<open>bald\<close> for a
  positive \<open>T\<close>.  (The draw and the sort are NumPy's, the network gives one row of \<open>C\<close>
  class probabilities per batch element.)
\<close>

theorem returned_query_is_consistent:
  fixes X :: "'x list" and n :: int
  shows "(is_draw (length X) n udraw \<longrightarrow>
            (X \<noteq> [] \<longrightarrow> (\<exists>qi qx. uniform X n udraw = Inr (qi, qx))) \<and>
            (\<forall>qi qx. uniform X n udraw = Inr (qi, qx) \<longrightarrow>
               qx = map (\<lambda>i. X ! i) qi \<and> distinct qi \<and>
               list_all (\<lambda>i. i < length X) qi \<and> int (length qi) = n)) \<and>
         (is_draw (length X) 2000 draw \<and>
          is_argsort
            (map uminus (max_entropy_acquisition ops
               (mc_samples MC_output (map (\<lambda>i. X ! i) draw) T)))
            (argsort (map uminus (max_entropy_acquisition ops
               (mc_samples MC_output (map (\<lambda>i. X ! i) draw) T)))) \<longrightarrow>
            (\<forall>qi qx. max_entropy ops X n T draw MC_output argsort = Inr (qi, qx) \<longrightarrow>
               qx = map (\<lambda>i. X ! i) qi \<and> distinct qi \<and>
               list_all (\<lambda>i. i < length X) qi) \<and>
            (net_shape MC_output C \<and> 0 < T \<longrightarrow>
               (\<exists>qi qx. max_entropy ops X n T draw MC_output argsort = Inr (qi, qx) \<and>
                  (0 \<le> n \<longrightarrow> length qi = min (nat n) 2000)))) \<and>
         (is_draw (length X) 2000 draw \<and>
          is_argsort
            (map uminus (bald_acquisition ops
               (mc_samples MC_output (map (\<lambda>i. X ! i) draw) T)))
            (argsort (map uminus (bald_acquisition ops
               (mc_samples MC_output (map (\<lambda>i. X ! i) draw) T)))) \<longrightarrow>
            (\<forall>qi qx. bald ops X n T draw MC_output argsort = Inr (qi, qx) \<longrightarrow>
               qx = map (\<lambda>i. X ! i) qi \<and> distinct qi \<and>
               list_all (\<lambda>i. i < length X) qi) \<and>
            (net_shape MC_output C \<and> 0 < T \<longrightarrow>
               (\<exists>qi qx. bald ops X n T draw MC_output argsort = Inr (qi, qx) \<and>
                  (0 \<le> n \<longrightarrow> length qi = min (nat n) 2000))))"
proof (intro conjI impI allI)
  assume d: "is_draw (length X) n udraw" and ne: "X \<noteq> []"
  show "\<exists>qi qx. uniform X n udraw = Inr (qi, qx)"
    using uniform_query [OF d ne] by blast
next
  fix qi qx
  assume d: "is_draw (length X) n udraw" and r: "uniform X n udraw = Inr (qi, qx)"
  note u = uniform_result [OF d r]
  show "qx = map (\<lambda>i. X ! i) qi"
    using u(2) .
  show "distinct qi" "list_all (\<lambda>i. i < length X) qi" "int (length qi) = n"
    using d u(1) by (simp_all add: is_draw_def)
next
  fix qi qx
  assume a: "is_draw (length X) 2000 draw \<and>
          is_argsort
            (map uminus (max_entropy_acquisition ops
               (mc_samples MC_output (map (\<lambda>i. X ! i) draw) T)))
            (argsort (map uminus (max_entropy_acquisition ops
               (mc_samples MC_output (map (\<lambda>i. X ! i) draw) T))))"
    and r: "max_entropy ops X n T draw MC_output argsort = Inr (qi, qx)"
  have d: "is_draw (length X) 2000 draw"
    using a by simp
  note res = max_entropy_result [OF d r]
  show "qx = map (\<lambda>i. X ! i) qi" "list_all (\<lambda>i. i < length X) qi"
    using res(2,3) .
  show "distinct qi"
    using res(4) a by (simp add: is_argsort_def)
next
  assume a: "is_draw (length X) 2000 draw \<and>
          is_argsort
            (map uminus (max_entropy_acquisition ops
               (mc_samples MC_output (map (\<lambda>i. X ! i) draw) T)))
            (argsort (map uminus (max_entropy_acquisition ops
               (mc_samples MC_output (map (\<lambda>i. X ! i) draw) T))))"
    and b: "net_shape MC_output C \<and> 0 < T"
  note q = max_entropy_query(1,6) [where ops = ops and n = n and argsort = argsort
      and X = X and draw = draw and MC_output = MC_output and C = C and T = T]
  show "\<exists>qi qx. max_entropy ops X n T draw MC_output argsort = Inr (qi, qx) \<and>
                  (0 \<le> n \<longrightarrow> length qi = min (nat n) 2000)"
    using q a b by auto
next
  fix qi qx
  assume a: "is_draw (length X) 2000 draw \<and>
          is_argsort
            (map uminus (bald_acquisition ops
               (mc_samples MC_output (map (\<lambda>i. X ! i) draw) T)))
            (argsort (map uminus (bald_acquisition ops
               (mc_samples MC_output (map (\<lambda>i. X ! i) draw) T))))"
    and r: "bald ops X n T draw MC_output argsort = Inr (qi, qx)"
  have d: "is_draw (length X) 2000 draw"
    using a by simp
  note res = bald_result [OF d r]
  show "qx = map (\<lambda>i. X ! i) qi" "list_all (\<lambda>i. i < length X) qi"
    using res(2,3) .
  show "distinct qi"
    using res(4) a by (simp add: is_argsort_def)
next
  assume a: "is_draw (length X) 2000 draw \<and>
          is_argsort
            (map uminus (bald_acquisition ops
               (mc_samples MC_output (map (\<lambda>i. X ! i) draw) T)))
            (argsort (map uminus (bald_acquisition ops
               (mc_samples MC_output (map (\<lambda>i. X ! i) draw) T))))"
    and b: "net_shape MC_output C \<and> 0 < T"
  note q = bald_query(1,6) [where ops = ops and n = n and argsort = argsort
      and X = X and draw = draw and MC_output = MC_output and C = C and T = T]
  show "\<exists>qi qx. bald ops X n T draw MC_output argsort = Inr (qi, qx) \<and>
                  (0 \<le> n \<longrightarrow> length qi = min (nat n) 2000)"
    using q a b by auto
qed

theorem returned_query_is_consistent_witness:
  "is_draw (length [0..<5::nat]) 2 [3, 1] \<and>
   [0..<5::nat] \<noteq> [] \<and>
   uniform [0..<5::nat] 2 [3, 1] = Inr ([3, 1], [3, 1]) \<and>
   is_draw (length [0..<2500::nat]) 2000 [0..<2000] \<and>
   net_shape (constant_network [1 / 2, 1 / 2] :: nat network) 2 \<and>
   is_argsort
     (map uminus (max_entropy_acquisition exact_ops
        (mc_samples (constant_network [1 / 2, 1 / 2])
           (map (\<lambda>i. [0..<2500::nat] ! i) [0..<2000]) 100)))
     (stable_argsort (map uminus (max_entropy_acquisition exact_ops
        (mc_samples (constant_network [1 / 2, 1 / 2])
           (map (\<lambda>i. [0..<2500::nat] ! i) [0..<2000]) 100)))) \<and>
   is_argsort
     (map uminus (bald_acquisition exact_ops
        (mc_samples (constant_network [1 / 2, 1 / 2])
           (map (\<lambda>i. [0..<2500::nat] ! i) [0..<2000]) 100)))
     (stable_argsort (map uminus (bald_acquisition exact_ops
        (mc_samples (constant_network [1 / 2, 1 / 2])
           (map (\<lambda>i. [0..<2500::nat] ! i) [0..<2000]) 100)))) \<and>
   \<not> isl (max_entropy exact_ops [0..<2500::nat] 10 100 [0..<2000]
        (constant_network [1 / 2, 1 / 2]) stable_argsort) \<and>
   \<not> isl (bald exact_ops [0..<2500::nat] 2500 100 [0..<2000]
        (constant_network [1 / 2, 1 / 2]) stable_argsort)"
proof -
  let ?net = "constant_network [1 / 2, 1 / 2] :: nat network"
  have u: "is_draw (length [0..<5::nat]) 2 [3, 1]"
    by (simp add: is_draw_def)
  have ne: "[0..<5::nat] \<noteq> []"
    by simp
  note a = returned_query_is_consistent
    [where X = "[0..<5::nat]" and n = 2 and udraw = "[3, 1]" and draw = "[]"
      and ops = exact_ops and MC_output = ?net and C = 2 and T = 100
      and argsort = stable_argsort]
  note b = returned_query_is_consistent
    [where X = "[0..<2500::nat]" and n = 10 and udraw = "[]" and draw = "[0..<2000]"
      and ops = exact_ops and MC_output = ?net and C = 2 and T = 100
      and argsort = stable_argsort]
  note c = returned_query_is_consistent
    [where X = "[0..<2500::nat]" and n = 2500 and udraw = "[]" and draw = "[0..<2000]"
      and ops = exact_ops and MC_output = ?net and C = 2 and T = 100
      and argsort = stable_argsort]
  obtain qi qx where r: "uniform [0..<5::nat] 2 [3, 1] = Inr (qi, qx)"
    using a u ne by blast
  have "qi = [3, 1]" "qx = [3, 1]"
    using uniform_result [OF u r] by simp_all
  then have 1: "uniform [0..<5::nat] 2 [3, 1] = Inr ([3, 1], [3, 1])"
    using r by simp
  have 2: "\<not> isl (max_entropy exact_ops [0..<2500::nat] 10 100 [0..<2000] ?net stable_argsort)"
    using b witness_draw witness_net stable_argsort_is_argsort by auto
  have 3: "\<not> isl (bald exact_ops [0..<2500::nat] 2500 100 [0..<2000] ?net stable_argsort)"
    using c witness_draw witness_net stable_argsort_is_argsort by auto
  from u ne 1 witness_draw witness_net 2 3 show ?thesis
    using stable_argsort_is_argsort by blast
qed

section \<open>The active-learning procedure\<close>

text \<open>With no instance asked for, the first \<open>teach\<close> is given no rows and raises.\<close>

lemma procedure_raises_on_empty_query:
  "active_learning_procedure counting_learner [] [] [0..<25] [0..<25] [] [] 2 0
     = Inl ValueError"
  by code_simp

text \<open>
  C4, as stated, fails: with two queries of ten instances on a pool of fifteen rows the
  second query has five rows left, \<open>uniform\<close> raises \<^verbatim>\<open>ValueError\<close> and the procedure
  returns no history.
\<close>

theorem procedure_raises_when_pool_runs_out:
  "active_learning_procedure counting_learner [] [] [0..<15] [0..<15] [] [] 2 10
     = Inl ValueError"
  by code_simp

text \<open>
  C4, amended.  Let \<open>n_queries\<close> be non-negative.  If the initial fit and score return
  normally and, in each of the \<open>n_queries\<close> iterations, the query returns normally with
  indices inside the feature pool and the label pool and the teach and score calls return
  normally, \<open>active_learning_procedure\<close> returns a history of length \<open>n_queries + 1\<close>: its
  first element is the test accuracy of the learner fitted on the initial data, its element
  \<open>k\<close> (counting from 0, for \<open>1 \<le> k \<le> n_queries\<close>) the test accuracy of the learner after
  the \<open>k\<close>-th iteration.  It returns in no other case: otherwise it ends in the error of
  the initial fit or score, or in the error of the loop body in the first iteration
  that fails.
\<close>

theorem active_learning_procedure_history:
  fixes lib :: "('l, 'x, 'y) active_learner"
    and X_test Xp Xi :: "'x list" and y_test yp yi :: "'y list"
    and n_queries n_instances :: int
  assumes "0 \<le> n_queries"
  defines "init \<equiv> initial_state lib X_test y_test Xp yp Xi yi"
  defines "run \<equiv> active_learning_procedure lib X_test y_test Xp yp Xi yi n_queries n_instances"
  shows "(\<forall>s0. init = Inr s0 \<and>
               calls_succeed lib X_test y_test n_instances (nat n_queries) s0 \<longrightarrow>
           (\<exists>hist l0. run = Inr hist \<and>
              int (length hist) = n_queries + 1 \<and>
              fit lib Xi yi = Inr l0 \<and> score lib l0 X_test y_test = Inr (hist ! 0) \<and>
              (\<forall>k. 1 \<le> k \<and> k \<le> nat n_queries \<longrightarrow>
                 (\<exists>sk. al_loop lib X_test y_test n_instances k s0 = Inr sk \<and>
                       score lib (learner sk) X_test y_test = Inr (hist ! k))))) \<and>
         ((\<exists>hist. run = Inr hist) \<longleftrightarrow>
            (\<exists>s0. init = Inr s0 \<and>
                  calls_succeed lib X_test y_test n_instances (nat n_queries) s0)) \<and>
         (\<forall>e. run = Inl e \<longleftrightarrow>
            fit lib Xi yi = Inl e \<or>
            (\<exists>l0. fit lib Xi yi = Inr l0 \<and> score lib l0 X_test y_test = Inl e) \<or>
            (\<exists>s0 j sj. init = Inr s0 \<and> j < nat n_queries \<and>
                       al_loop lib X_test y_test n_instances j s0 = Inr sj \<and>
                       al_step lib X_test y_test n_instances sj = Inl e))"
proof (intro conjI allI impI)
  fix s0
  assume a: "init = Inr s0 \<and> calls_succeed lib X_test y_test n_instances (nat n_queries) s0"
  then obtain s' where s': "al_loop lib X_test y_test n_instances (nat n_queries) s0 = Inr s'"
    using calls_succeed_iff by blast
  have run: "run = Inr (perf_hist s')"
    using s' a by (simp add: run_def active_learning_procedure_def init_def)
  obtain l0 acc0 where l0: "fit lib Xi yi = Inr l0" "score lib l0 X_test y_test = Inr acc0"
    and h0: "perf_hist s0 = [acc0]"
    using a by (auto simp: init_def initial_state_def split: sum.splits)
  obtain new where new: "perf_hist s' = perf_hist s0 @ new" "length new = nat n_queries"
    using al_loop_hist [OF s'] by blast
  have len: "int (length (perf_hist s')) = n_queries + 1"
    using new h0 assms(1) by simp
  have first: "score lib l0 X_test y_test = Inr (perf_hist s' ! 0)"
    using new h0 l0 by simp
  have later: "\<forall>k. 1 \<le> k \<and> k \<le> nat n_queries \<longrightarrow>
                 (\<exists>sk. al_loop lib X_test y_test n_instances k s0 = Inr sk \<and>
                       score lib (learner sk) X_test y_test = Inr (perf_hist s' ! k))"
  proof (intro allI impI)
    fix k assume k: "1 \<le> k \<and> k \<le> nat n_queries"
    then show "\<exists>sk. al_loop lib X_test y_test n_instances k s0 = Inr sk \<and>
                     score lib (learner sk) X_test y_test = Inr (perf_hist s' ! k)"
      using al_loop_nth [OF s', of k] h0 by simp
  qed
  show "\<exists>hist l0. run = Inr hist \<and>
              int (length hist) = n_queries + 1 \<and>
              fit lib Xi yi = Inr l0 \<and> score lib l0 X_test y_test = Inr (hist ! 0) \<and>
              (\<forall>k. 1 \<le> k \<and> k \<le> nat n_queries \<longrightarrow>
                 (\<exists>sk. al_loop lib X_test y_test n_instances k s0 = Inr sk \<and>
                       score lib (learner sk) X_test y_test = Inr (hist ! k)))"
    using run len l0(1) first later by blast
next
  show "(\<exists>hist. run = Inr hist) \<longleftrightarrow>
          (\<exists>s0. init = Inr s0 \<and>
                calls_succeed lib X_test y_test n_instances (nat n_queries) s0)"
    unfolding calls_succeed_iff
    by (auto simp: run_def active_learning_procedure_def init_def split: sum.splits)
next
  fix e
  have init_err: "init = Inl e \<longleftrightarrow>
      fit lib Xi yi = Inl e \<or>
      (\<exists>l0. fit lib Xi yi = Inr l0 \<and> score lib l0 X_test y_test = Inl e)"
    by (auto simp: init_def initial_state_def split: sum.splits)
  have "run = Inl e \<longleftrightarrow>
      init = Inl e \<or>
      (\<exists>s0. init = Inr s0 \<and>
            al_loop lib X_test y_test n_instances (nat n_queries) s0 = Inl e)"
    by (auto simp: run_def active_learning_procedure_def init_def split: sum.splits)
  then show "run = Inl e \<longleftrightarrow>
            fit lib Xi yi = Inl e \<or>
            (\<exists>l0. fit lib Xi yi = Inr l0 \<and> score lib l0 X_test y_test = Inl e) \<or>
            (\<exists>s0 j sj. init = Inr s0 \<and> j < nat n_queries \<and>
                       al_loop lib X_test y_test n_instances j s0 = Inr sj \<and>
                       al_step lib X_test y_test n_instances sj = Inl e)"
    unfolding init_err al_loop_error by blast
qed

theorem active_learning_procedure_history_witness:
  "(0::int) \<le> 2 \<and>
   initial_state counting_learner [] [] [0..<25] [0..<25] [] []
     = Inr \<lparr>learner = 0, X_pool = [0..<25], y_pool = [0..<25], perf_hist = [0]\<rparr> \<and>
   calls_succeed counting_learner [] [] 10 (nat 2)
     \<lparr>learner = 0, X_pool = [0..<25], y_pool = [0..<25], perf_hist = [0]\<rparr> \<and>
   map_sum id length
     (active_learning_procedure counting_learner [] [] [0..<25] [0..<25] [] [] 2 10) = Inr 3 \<and>
   active_learning_procedure counting_learner [] [] [0..<25] [0..<25] [] [] 2 10
     = Inr [0, 10, 20]"
proof -
  let ?s0 = "\<lparr>learner = 0::nat, X_pool = [0..<25], y_pool = [0..<25::nat],
              perf_hist = [0]\<rparr>"
  have i: "initial_state counting_learner [] [] [0..<25] [0..<25] [] [] = Inr ?s0"
    by code_simp
  have q: "calls_succeed counting_learner [] [] 10 (nat 2) ?s0"
    by code_simp
  have r: "active_learning_procedure counting_learner [] [] [0..<25] [0..<25] [] [] 2 10
     = Inr [0, 10, 20]"
    by code_simp
  have z: "(0::int) \<le> 2" by simp
  have a: "map_sum id length
     (active_learning_procedure counting_learner [] [] [0..<25] [0..<25] [] [] 2 10) = Inr 3"
    using active_learning_procedure_history
      [OF z, where lib = counting_learner and X_test = "[]" and y_test = "[]"
        and n_instances = 10 and Xp = "[0..<25]" and yp = "[0..<25]" and Xi = "[]"
        and yi = "[]"] i q
    by auto
  from z i q a r show ?thesis
    by blast
qed

text \<open>
  C5.  Let the feature pool and the label pool have the same length, as the pools of the
  notebook have, and let an iteration run.  Then the query's indices are removed from both
  pools at the same positions: both pools keep exactly the rows at the positions not
  queried, every remaining feature row is paired with its own label, the pools have equal
  length, and their length has dropped by the number of distinct queried indices.  In every
  later iteration the pools still have equal length and hold only original pairs, and
  (rows being told apart by their content) no queried row is in the pool again.
\<close>

theorem queried_rows_leave_both_pools:
  assumes eq: "length (X_pool s) = length (y_pool s)"
    and step: "al_step lib X_test y_test n s = Inr s1"
    and later: "al_loop lib X_test y_test n k s1 = Inr s2"
  shows "\<exists>query_idx query_instance l1.
           query lib (learner s) (X_pool s) n = Inr ((query_idx, query_instance), l1) \<and>
           X_pool s1 = map (\<lambda>i. X_pool s ! i)
                         (filter (\<lambda>i. i \<notin> set query_idx) [0..<length (X_pool s)]) \<and>
           y_pool s1 = map (\<lambda>i. y_pool s ! i)
                         (filter (\<lambda>i. i \<notin> set query_idx) [0..<length (X_pool s)]) \<and>
           zip (X_pool s1) (y_pool s1)
             = map (\<lambda>i. zip (X_pool s) (y_pool s) ! i)
                 (filter (\<lambda>i. i \<notin> set query_idx) [0..<length (X_pool s)]) \<and>
           length (X_pool s1) = length (y_pool s1) \<and>
           length (X_pool s1) = length (X_pool s) - card (set query_idx) \<and>
           length (X_pool s2) = length (y_pool s2) \<and>
           set (zip (X_pool s2) (y_pool s2)) \<subseteq> set (zip (X_pool s) (y_pool s)) \<and>
           (distinct (X_pool s) \<longrightarrow> (\<forall>i\<in>set query_idx. X_pool s ! i \<notin> set (X_pool s2)))"
proof -
  obtain qi qx l1 where q: "query lib (learner s) (X_pool s) n = Inr ((qi, qx), l1)"
    and dx: "np_delete (X_pool s) qi = Inr (X_pool s1)"
    and dy: "np_delete (y_pool s) qi = Inr (y_pool s1)"
    using al_step_Inr [OF step] by blast
  note one = al_step_pools [OF eq step]
  note many = al_loop_pools [OF one(1) later]
  have "X_pool s1 = map (\<lambda>i. X_pool s ! i)
                      (filter (\<lambda>i. i \<notin> set qi) [0..<length (X_pool s)])"
    using np_delete_Inr(1) [OF dx] .
  moreover have "y_pool s1 = map (\<lambda>i. y_pool s ! i)
                      (filter (\<lambda>i. i \<notin> set qi) [0..<length (X_pool s)])"
    using np_delete_Inr(1) [OF dy] eq by simp
  moreover have "zip (X_pool s1) (y_pool s1)
             = map (\<lambda>i. zip (X_pool s) (y_pool s) ! i)
                 (filter (\<lambda>i. i \<notin> set qi) [0..<length (X_pool s)])"
    using np_delete_zip(1) [OF dx dy eq] .
  moreover have "length (X_pool s1) = length (X_pool s) - card (set qi)"
    using np_delete_length [OF dx] .
  moreover have "set (zip (X_pool s2) (y_pool s2)) \<subseteq> set (zip (X_pool s) (y_pool s))"
    using many one(2) by blast
  moreover have "distinct (X_pool s) \<longrightarrow> (\<forall>i\<in>set qi. X_pool s ! i \<notin> set (X_pool s2))"
    using np_delete_removes [OF dx] many by blast
  ultimately show ?thesis
    using q one(1) many by blast
qed

theorem queried_rows_leave_both_pools_witness:
  "length (X_pool \<lparr>learner = 0::nat, X_pool = [10, 11, 12, 13, 14::nat],
                   y_pool = [0, 1, 2, 3, 4::nat], perf_hist = [0]\<rparr>)
     = length (y_pool \<lparr>learner = 0::nat, X_pool = [10, 11, 12, 13, 14::nat],
                       y_pool = [0, 1, 2, 3, 4::nat], perf_hist = [0]\<rparr>) \<and>
   al_step counting_learner [] [] 2
     \<lparr>learner = 0, X_pool = [10, 11, 12, 13, 14], y_pool = [0, 1, 2, 3, 4], perf_hist = [0]\<rparr>
     = Inr \<lparr>learner = 2, X_pool = [12, 13, 14], y_pool = [2, 3, 4], perf_hist = [0, 2]\<rparr> \<and>
   al_loop counting_learner [] [] 2 1
     \<lparr>learner = 2, X_pool = [12, 13, 14], y_pool = [2, 3, 4], perf_hist = [0, 2]\<rparr>
     = Inr \<lparr>learner = 4, X_pool = [14], y_pool = [4], perf_hist = [0, 2, 4]\<rparr> \<and>
   length (X_pool \<lparr>learner = 2::nat, X_pool = [12, 13, 14::nat], y_pool = [2, 3, 4::nat],
                   perf_hist = [0, 2]\<rparr>)
     = length (y_pool \<lparr>learner = 2::nat, X_pool = [12, 13, 14::nat], y_pool = [2, 3, 4::nat],
                       perf_hist = [0, 2]\<rparr>)"
proof -
  let ?s = "\<lparr>learner = 0::nat, X_pool = [10, 11, 12, 13, 14::nat],
             y_pool = [0, 1, 2, 3, 4::nat], perf_hist = [0]\<rparr>"
  let ?s1 = "\<lparr>learner = 2::nat, X_pool = [12, 13, 14::nat], y_pool = [2, 3, 4::nat],
              perf_hist = [0, 2]\<rparr>"
  let ?s2 = "\<lparr>learner = 4::nat, X_pool = [14::nat], y_pool = [4::nat],
              perf_hist = [0, 2, 4]\<rparr>"
  have eq: "length (X_pool ?s) = length (y_pool ?s)"
    by simp
  have step: "al_step counting_learner [] [] 2 ?s = Inr ?s1"
    by code_simp
  have later: "al_loop counting_learner [] [] 2 1 ?s1 = Inr ?s2"
    by code_simp
  have "length (X_pool ?s1) = length (y_pool ?s1)"
    using queried_rows_leave_both_pools [OF eq step later] by blast
  with eq step later show ?thesis
    by blast
qed

section \<open>The initial labelled set\<close>

text \<open>
  C9.  Let the training set have 60000 images and 60000 labels and the test set 10000
  images, every label a digit below 10, and let the draw for each class pick two distinct
  rows of that class.  Then the cells
  run without error; \<open>initial_idx\<close> holds 20 pairwise distinct training-set indices,
  exactly two of them with each of the ten labels; \<open>X_initial\<close> and \<open>y_initial\<close> are the
  training images and the one-hot label rows at these indices, so that exactly two rows of
  \<open>y_initial\<close> are the label row of each digit; and the pool is the training set
  without exactly these rows, in the order of the training set, 59980 images and their
  59980 label rows.
\<close>

theorem initial_set_is_balanced:
  fixes X_train X_test :: "'x list"
  assumes X: "length X_train = 60000" and y: "length y_labels = 60000"
    and Xt: "length X_test = 10000"
    and digits: "list_all (\<lambda>label. label < 10) y_labels"
    and test_digits: "list_all (\<lambda>label. label < 10) y_test_labels"
    and draws: "list_all (\<lambda>c. is_draw (length (class_rows y_labels c)) 2 (draws c)) [0..<10]"
  shows "\<exists>r. initial_split X_train X_test y_labels y_test_labels draws = Inr r \<and>
           length (initial_idx r) = 20 \<and> distinct (initial_idx r) \<and>
           list_all (\<lambda>j. j < 60000) (initial_idx r) \<and>
           list_all (\<lambda>c. length (filter (\<lambda>j. y_labels ! j = c) (initial_idx r)) = 2) [0..<10] \<and>
           X_initial r = map (\<lambda>j. X_train ! j) (initial_idx r) \<and>
           y_initial r = map (\<lambda>j. one_hot (y_labels ! j)) (initial_idx r) \<and>
           list_all (\<lambda>c. length (filter (\<lambda>row. row = one_hot c) (y_initial r)) = 2) [0..<10] \<and>
           length (y_initial r) = 20 \<and>
           X_pool0 r = map (\<lambda>j. X_train ! j)
                         (filter (\<lambda>j. j \<notin> set (initial_idx r)) [0..<60000]) \<and>
           y_pool0 r = map (\<lambda>j. one_hot (y_labels ! j))
                         (filter (\<lambda>j. j \<notin> set (initial_idx r)) [0..<60000]) \<and>
           length (X_pool0 r) = 59980 \<and> length (y_pool0 r) = 59980"
proof -
  let ?Y = "map one_hot y_labels"
  let ?idxs = "concat (map (chunk y_labels draws) [0..<10])"
  let ?rest = "filter (\<lambda>j. j \<notin> set ?idxs) [0..<60000]"
  have cat: "to_categorical y_labels 10 = Inr ?Y"
    using digits by (rule to_categorical_one_hot)
  have Y: "?Y = map (\<lambda>label. map (\<lambda>c. if c = label then 1 else 0) [0..<10]) y_labels"
    by (simp add: one_hot_def)
  have draws': "list_all (\<lambda>c. c < 10 \<and> is_draw (length (class_rows y_labels c)) 2 (draws c))
                  [0..<10]"
    using draws by (simp add: list_all_iff)
  have loop: "initial_idx_loop ?Y draws [0..<10] [] = Inr ?idxs"
    using initial_idx_loop_Inr [OF digits draws', of "[]"] unfolding Y by simp
  note ch = chunks_distinct [OF distinct_upt draws]
  have len: "length ?idxs = 20"
    using ch(3) by simp
  have dist: "distinct ?idxs"
    using ch(1) .
  have range: "list_all (\<lambda>j. j < 60000) ?idxs"
    using ch(2) y by (simp add: list_all_iff)
  have per_class: "list_all (\<lambda>c. length (filter (\<lambda>j. y_labels ! j = c) ?idxs) = 2) [0..<10]"
    using ch(4) by (simp add: list_all_iff)
  have card: "card (set ?idxs) = 20"
    using distinct_card [OF dist] len by (simp only:)
  have yi: "map (\<lambda>j. ?Y ! j) ?idxs = map (\<lambda>j. one_hot (y_labels ! j)) ?idxs"
    using range y by (intro map_cong refl) (auto simp: list_all_iff)
  have yp: "map (\<lambda>j. ?Y ! j) ?rest = map (\<lambda>j. one_hot (y_labels ! j)) ?rest"
    using y by (intro map_cong refl) simp
  let ?r = "\<lparr>initial_idx = ?idxs, X_initial = map (\<lambda>j. X_train ! j) ?idxs,
             y_initial = map (\<lambda>j. one_hot (y_labels ! j)) ?idxs,
             X_pool0 = map (\<lambda>j. X_train ! j) ?rest,
             y_pool0 = map (\<lambda>j. one_hot (y_labels ! j)) ?rest\<rparr>"
  have fx: "fancy_index X_train ?idxs = Inr (map (\<lambda>j. X_train ! j) ?idxs)"
    using range X by (simp add: fancy_index_def)
  have fy: "fancy_index ?Y ?idxs = Inr (map (\<lambda>j. one_hot (y_labels ! j)) ?idxs)"
    using range y yi by (simp add: fancy_index_def)
  have dx: "np_delete X_train ?idxs = Inr (map (\<lambda>j. X_train ! j) ?rest)"
    using range X by (simp add: np_delete_def)
  have dy: "np_delete ?Y ?idxs = Inr (map (\<lambda>j. one_hot (y_labels ! j)) ?rest)"
    using range y yp by (simp add: np_delete_def)
  have run: "initial_split X_train X_test y_labels y_test_labels draws = Inr ?r"
    using X Xt
    by (simp add: initial_split_def cat to_categorical_one_hot [OF test_digits] loop
        fx fy dx dy)
  have rows: "list_all (\<lambda>c. length (filter (\<lambda>row. row = one_hot c)
                 (map (\<lambda>j. one_hot (y_labels ! j)) ?idxs)) = 2) [0..<10]"
  proof -
    have "length (filter (\<lambda>row. row = one_hot c) (map (\<lambda>j. one_hot (y_labels ! j)) ?idxs)) = 2"
      if c: "c < 10" for c
    proof -
      have "filter (\<lambda>row. row = one_hot c) (map (\<lambda>j. one_hot (y_labels ! j)) ?idxs)
              = map (\<lambda>j. one_hot (y_labels ! j)) (filter (\<lambda>j. y_labels ! j = c) ?idxs)"
        using one_hot_inj [OF c] by (simp add: filter_map comp_def)
      then show ?thesis
        using ch(4) [of c] c by simp
    qed
    then show ?thesis
      by (simp add: list_all_iff)
  qed
  have sub: "set ?idxs \<subseteq> {..<60000}"
    using range by (auto simp: list_all_iff)
  have pool: "length ?rest = 59980"
    using length_filter_not_in [OF sub] card by simp
  show ?thesis
    using run len dist range per_class rows pool by simp
qed

theorem initial_set_is_balanced_witness:
  "length (replicate 60000 (0::nat)) = 60000 \<and>
   length (map (\<lambda>j. j mod 10) [0..<60000]) = 60000 \<and>
   length (replicate 10000 (0::nat)) = 10000 \<and>
   list_all (\<lambda>label. label < 10) (map (\<lambda>j. j mod 10) [0..<60000]) \<and>
   list_all (\<lambda>label. label < 10) (replicate 10000 (7::nat)) \<and>
   list_all (\<lambda>c. is_draw (length (class_rows (map (\<lambda>j. j mod 10) [0..<60000]) c)) 2 [0, 1])
     [0..<10] \<and>
   map_sum id (\<lambda>r. (length (initial_idx r), length (y_initial r), length (X_pool0 r),
                     length (y_pool0 r)))
     (initial_split (replicate 60000 (0::nat)) (replicate 10000 0)
        (map (\<lambda>j. j mod 10) [0..<60000]) (replicate 10000 7) (\<lambda>c. [0, 1]))
     = Inr (20, 20, 59980, 59980)"
proof -
  let ?y = "map (\<lambda>j. j mod 10) [0..<60000]"
  have X: "length (replicate 60000 (0::nat)) = 60000" and y: "length ?y = 60000"
    and Xt: "length (replicate 10000 (0::nat)) = 10000"
    by simp_all
  have digits: "list_all (\<lambda>label. label < 10) ?y"
    by (simp add: list_all_iff)
  have test_digits: "list_all (\<lambda>label. label < 10) (replicate 10000 (7::nat))"
    by (simp add: list_all_iff)
  have two: "2 \<le> length (class_rows ?y c)" if "c < 10" for c
    using that class_rows_two [of c "c + 10" ?y c] by simp
  have "is_draw (length (class_rows ?y c)) 2 [0, 1]" if "c < 10" for c
    using two [OF that] by (auto simp: is_draw_def)
  then have draws: "list_all (\<lambda>c. is_draw (length (class_rows ?y c)) 2 [0, 1]) [0..<10]"
    by (simp add: list_all_iff)
  show ?thesis
    using initial_set_is_balanced
      [OF X y Xt digits test_digits, of "\<lambda>c. [0, 1]", OF draws]
      X y Xt digits test_digits draws
    by auto
qed

end
